theory Spec2Isabelle
  imports Complex_Main
begin

section \<open>JavaScript values\<close>

text \<open>
  The engine is written in JavaScript.  Values are modelled by the datatype below.
  Objects, arrays and functions carry an identity (a natural number): the strict
  equality \<open>===\<close> of the source compares them by reference, primitives by value.
  An object \<open>JObj\<close> is a plain object (its prototype is \<open>Object.prototype\<close>), given by
  its own enumerable string-keyed properties in the order \<open>Object.entries\<close> lists them.

  The engine never computes with numbers: it compares them with \<open>===\<close>, tests whether
  they are truthy and asks for their \<open>typeof\<close>.  \<open>JNum r\<close> is the number with the value
  \<open>r\<close>: every finite double is one of these (the two zeros are one value, which no
  operation of the engine separates), so what holds for all \<open>JNum r\<close> holds for all
  finite numbers of the language.  \<open>JNaN\<close> is \<open>NaN\<close>, the one value that is not equal to
  itself.  The two infinities are not values of the model; the engine treats them as it
  treats any other number that is not zero.

  \<open>JBuiltin n\<close> is a member of \<open>Object.prototype\<close>, named by \<open>n\<close>: these are what a
  property read finds when the name is not an own property (see \<open>inherited\<close> below).
  Such a value arises as the result of a read only; the engine tests and compares it and
  never stores or calls it.  The values a caller gives are built from the other
  constructors.
\<close>

datatype jsval =
    JUndefined
  | JNull
  | JBool bool
  | JNum real
  | JNaN
  | JStr string
  | JFun nat
  | JBuiltin string
  | JObj nat "(string \<times> jsval) list"
  | JArr nat "jsval list"

text \<open>
  A \<open>TypeError\<close> of the language, an exception of the host (a \<open>DOMException\<close>), or the
  end of the fuel of a loop of the model.
\<close>

datatype error = TypeError | HostError | OutOfFuel

datatype js_type = TUndefined | TObject | TBoolean | TNumber | TString | TFunction

fun typeof :: "jsval \<Rightarrow> js_type" where
  "typeof JUndefined = TUndefined"
| "typeof JNull = TObject"
| "typeof (JBool b) = TBoolean"
| "typeof (JNum n) = TNumber"
| "typeof JNaN = TNumber"
| "typeof (JStr s) = TString"
| "typeof (JFun f) = TFunction"
| "typeof (JBuiltin n) = (if n = ''Object.prototype'' then TObject else TFunction)"
| "typeof (JObj i ps) = TObject"
| "typeof (JArr i xs) = TObject"

text \<open>Truthiness, as \<open>if (v)\<close>, \<open>!v\<close> and \<open>while (v)\<close> test it.\<close>

fun truthy :: "jsval \<Rightarrow> bool" where
  "truthy JUndefined = False"
| "truthy JNull = False"
| "truthy (JBool b) = b"
| "truthy (JNum n) = (n \<noteq> 0)"
| "truthy JNaN = False"
| "truthy (JStr s) = (s \<noteq> [])"
| "truthy (JFun f) = True"
| "truthy (JBuiltin n) = True"
| "truthy (JObj i ps) = True"
| "truthy (JArr i xs) = True"

text \<open>Strict equality \<open>===\<close>.\<close>

fun strict_eq :: "jsval \<Rightarrow> jsval \<Rightarrow> bool" where
  "strict_eq JUndefined JUndefined = True"
| "strict_eq JNull JNull = True"
| "strict_eq (JBool a) (JBool b) = (a = b)"
| "strict_eq (JNum a) (JNum b) = (a = b)"
| "strict_eq (JStr a) (JStr b) = (a = b)"
| "strict_eq (JFun a) (JFun b) = (a = b)"
| "strict_eq (JBuiltin a) (JBuiltin b) = (a = b)"
| "strict_eq (JObj a ps) (JObj b qs) = (a = b)"
| "strict_eq (JArr a xs) (JArr b ys) = (a = b)"
| "strict_eq v w = False"

text \<open>
  The members of \<open>Object.prototype\<close>.  A property read that finds no own property goes
  on in the prototype: for a plain object that is \<open>Object.prototype\<close>, whose members are
  functions but for \<open>__proto__\<close>, which reads as the prototype itself.  Arrays, strings,
  functions, numbers and booleans inherit these members too; what they inherit from
  their nearer prototypes (\<open>Array.prototype\<close> and so on, which also redefine some of these
  names) is not modelled.
\<close>

definition object_prototype :: "(string \<times> jsval) list" where
  "object_prototype =
     [(''constructor'', JBuiltin ''Object''),
      (''__defineGetter__'', JBuiltin ''Object.prototype.__defineGetter__''),
      (''__defineSetter__'', JBuiltin ''Object.prototype.__defineSetter__''),
      (''hasOwnProperty'', JBuiltin ''Object.prototype.hasOwnProperty''),
      (''__lookupGetter__'', JBuiltin ''Object.prototype.__lookupGetter__''),
      (''__lookupSetter__'', JBuiltin ''Object.prototype.__lookupSetter__''),
      (''isPrototypeOf'', JBuiltin ''Object.prototype.isPrototypeOf''),
      (''propertyIsEnumerable'', JBuiltin ''Object.prototype.propertyIsEnumerable''),
      (''toString'', JBuiltin ''Object.prototype.toString''),
      (''valueOf'', JBuiltin ''Object.prototype.valueOf''),
      (''__proto__'', JBuiltin ''Object.prototype''),
      (''toLocaleString'', JBuiltin ''Object.prototype.toLocaleString'')]"

definition inherited :: "string \<Rightarrow> jsval" where
  "inherited k = (case map_of object_prototype k of Some v \<Rightarrow> v | None \<Rightarrow> JUndefined)"

text \<open>\<open>k in o\<close> and \<open>o[k]\<close> for a plain object with the own entries \<open>ps\<close>.\<close>

definition has_property :: "(string \<times> jsval) list \<Rightarrow> string \<Rightarrow> bool" where
  "has_property ps k = (k \<in> set (map fst ps) \<or> k \<in> set (map fst object_prototype))"

definition obj_read :: "(string \<times> jsval) list \<Rightarrow> string \<Rightarrow> jsval" where
  "obj_read ps k = (case map_of ps k of Some v \<Rightarrow> v | None \<Rightarrow> inherited k)"

text \<open>Decimal index keys of strings and arrays (\<open>'0'\<close>, \<open>'1'\<close>, ...).\<close>

definition digit_char :: "nat \<Rightarrow> char" where
  "digit_char d = ''0123456789'' ! (d mod 10)"

function show_nat :: "nat \<Rightarrow> string" where
  "show_nat n = (if n < 10 then [digit_char n] else show_nat (n div 10) @ [digit_char n])"
  by pat_completeness auto
termination
  by (relation "measure (\<lambda>n. n)") auto

declare show_nat.simps [simp del]

fun index_entries :: "nat \<Rightarrow> jsval list \<Rightarrow> (string \<times> jsval) list" where
  "index_entries i [] = []"
| "index_entries i (x # xs) = (show_nat i, x) # index_entries (Suc i) xs"

text \<open>
  \<open>Object.entries(v)\<close>: the own enumerable properties; it throws on \<open>null\<close> and
  \<open>undefined\<close>, lists the characters of a string and the elements of an array under
  their indices, and is empty for the other primitives and for functions.
\<close>

fun object_entries :: "jsval \<Rightarrow> error + (string \<times> jsval) list" where
  "object_entries JUndefined = Inl TypeError"
| "object_entries JNull = Inl TypeError"
| "object_entries (JObj i ps) = Inr ps"
| "object_entries (JArr i xs) = Inr (index_entries 0 xs)"
| "object_entries (JStr s) = Inr (index_entries 0 (map (\<lambda>c. JStr [c]) s))"
| "object_entries v = Inr []"

text \<open>
  The keys that are array indices: the decimal numerals without a leading zero, below
  \<open>2^32 - 1\<close>.  An object lists such keys first, in ascending order, and then its other
  keys in the order in which they were added.
\<close>

definition digit_value :: "char \<Rightarrow> nat option" where
  "digit_value c =
     map_of [(CHR ''0'', 0), (CHR ''1'', 1), (CHR ''2'', 2), (CHR ''3'', 3), (CHR ''4'', 4),
             (CHR ''5'', 5), (CHR ''6'', 6), (CHR ''7'', 7), (CHR ''8'', 8), (CHR ''9'', 9)] c"

fun digits_value :: "nat \<Rightarrow> string \<Rightarrow> nat option" where
  "digits_value acc [] = Some acc"
| "digits_value acc (c # cs) =
     (case digit_value c of None \<Rightarrow> None | Some d \<Rightarrow> digits_value (10 * acc + d) cs)"

definition array_index :: "string \<Rightarrow> nat option" where
  "array_index k =
     (if k = [] \<or> (hd k = CHR ''0'' \<and> tl k \<noteq> []) then None
      else case digits_value 0 k of
             None \<Rightarrow> None
           | Some n \<Rightarrow> if n < 4294967295 then Some n else None)"

text \<open>\<open>goes_before k k'\<close>: a new key \<open>k\<close> is listed before the key \<open>k'\<close>.\<close>

definition goes_before :: "string \<Rightarrow> string \<Rightarrow> bool" where
  "goes_before k k' =
     (case array_index k of
        None \<Rightarrow> False
      | Some n \<Rightarrow> (case array_index k' of None \<Rightarrow> True | Some m \<Rightarrow> n < m))"

text \<open>
  A property read \<open>v[k]\<close>: it throws on \<open>null\<close> and \<open>undefined\<close>; on an object it
  is the own property, else the inherited member, else \<open>undefined\<close>; strings and arrays
  answer their indices and \<open>length\<close> first.
\<close>

fun get_prop :: "jsval \<Rightarrow> string \<Rightarrow> error + jsval" where
  "get_prop JUndefined k = Inl TypeError"
| "get_prop JNull k = Inl TypeError"
| "get_prop (JObj i ps) k = Inr (obj_read ps k)"
| "get_prop (JArr i xs) k =
     Inr (if k = ''length'' then JNum (of_nat (length xs))
          else case map_of (index_entries 0 xs) k of Some v \<Rightarrow> v | None \<Rightarrow> inherited k)"
| "get_prop (JStr s) k =
     Inr (if k = ''length'' then JNum (of_nat (length s))
          else case map_of (index_entries 0 (map (\<lambda>c. JStr [c]) s)) k of
                 Some v \<Rightarrow> v | None \<Rightarrow> inherited k)"
| "get_prop (JBuiltin n) k =
     Inr (if n = ''Object.prototype'' \<and> k = ''__proto__'' then JNull else inherited k)"
| "get_prop v k = Inr (inherited k)"

text \<open>
  An assignment \<open>o[k] = v\<close> on the entries of an object: an existing key keeps its
  place and takes the new value; a new key takes its place in the order of the keys (an
  array index before the greater indices and the other keys, another key last).
\<close>

fun assign_entry :: "(string \<times> jsval) list \<Rightarrow> string \<Rightarrow> jsval \<Rightarrow> (string \<times> jsval) list" where
  "assign_entry [] k v = [(k, v)]"
| "assign_entry ((k', v') # ps) k v =
     (if k' = k then (k, v) # ps
      else if goes_before k k' \<and> k \<notin> set (map fst ps) then (k, v) # (k', v') # ps
      else (k', v') # assign_entry ps k v)"

text \<open>\<open>k.startsWith('on')\<close>.\<close>

definition startsWith_on :: "string \<Rightarrow> bool" where
  "startsWith_on k = (take 2 k = ''on'')"

section \<open>The host: DOM calls\<close>

text \<open>
  The DOM is outside the engine.  Host nodes are identified by natural numbers, and
  every mutation the engine asks of the host is recorded, in order, in a log of calls.
  A call that is given \<open>null\<close> or a value that is no host node throws.  In \<open>index.js\<close>
  every \<open>appendChild\<close> is on the element that has just been made, or on the container
  with an element made by the engine: the host accepts these.  The engine with effect
  tags moves and removes host nodes, and its state holds the host tree (see \<open>dstate\<close>).
  The host is taken to accept every element name and every write of a property.
\<close>

datatype host_call =
    CreateElement nat jsval
  | CreateTextNode nat jsval
  | AppendChild nat nat
  | RemoveChild nat nat
  | SetProp nat string jsval
  | SetStyle nat string jsval
  | SetTextContent nat jsval
  | AddEventListener nat string jsval
  | RemoveEventListener nat string jsval

section \<open>dom.js: initial properties and the property diff\<close>

text \<open>One turn of the loop of \<open>setInitialProps\<close>: the calls made for the entry \<open>[k, v]\<close>.\<close>

definition setInitialProp :: "nat \<Rightarrow> string \<times> jsval \<Rightarrow> error + host_call list" where
  "setInitialProp el kv =
     (let k = fst kv; v = snd kv in
      if k = ''style'' then
        (case object_entries v of
           Inl e \<Rightarrow> Inl e
         | Inr es \<Rightarrow> Inr (map (\<lambda>(sk, sv). SetStyle el sk sv) es))
      else if k = ''children'' then
        (if typeof v = TNumber \<or> typeof v = TString then Inr [SetTextContent el v] else Inr [])
      else Inr [SetProp el k v])"

fun setInitialProps_loop ::
  "nat \<Rightarrow> (string \<times> jsval) list \<Rightarrow> host_call list \<Rightarrow> error + host_call list" where
  "setInitialProps_loop el [] lg = Inr lg"
| "setInitialProps_loop el (kv # kvs) lg =
     (case setInitialProp el kv of
        Inl e \<Rightarrow> Inl e
      | Inr cs \<Rightarrow> setInitialProps_loop el kvs (lg @ cs))"

definition setInitialProps :: "nat \<Rightarrow> jsval \<Rightarrow> host_call list \<Rightarrow> error + host_call list" where
  "setInitialProps el nextProps lg =
     (case object_entries nextProps of
        Inl e \<Rightarrow> Inl e
      | Inr es \<Rightarrow> setInitialProps_loop el es lg)"

text \<open>
  \<open>diffProperties\<close> keeps two accumulators: the flat array \<open>updatePayload\<close>
  (\<open>push(k, v)\<close> appends two elements) and the object \<open>styleUpdates\<close>, which the
  second loop may replace by the new style value itself (\<open>styleUpdates = v\<close>).
\<close>

type_synonym diff_acc = "jsval list \<times> jsval"

text \<open>
  \<open>styleUpdates[sk] = sv\<close>.  The module is strict code: the assignment throws on
  \<open>null\<close>, \<open>undefined\<close> and the primitives.  On a function or an array it adds a
  named property, which the model does not keep.
\<close>

fun style_set :: "jsval \<Rightarrow> string \<Rightarrow> jsval \<Rightarrow> error + jsval" where
  "style_set (JObj i ps) sk sv = Inr (JObj i (assign_entry ps sk sv))"
| "style_set (JFun f) sk sv = Inr (JFun f)"
| "style_set (JBuiltin n) sk sv = Inr (JBuiltin n)"
| "style_set (JArr i xs) sk sv = Inr (JArr i xs)"
| "style_set v sk sv = Inl TypeError"

text \<open>\<open>for (const [sk, sv] of Object.entries(v)) styleUpdates[sk] = ''\<close>, on the entries.\<close>

fun clear_styles :: "(string \<times> jsval) list \<Rightarrow> jsval \<Rightarrow> error + jsval" where
  "clear_styles [] su = Inr su"
| "clear_styles ((sk, sv) # es) su =
     (case style_set su sk (JStr []) of Inl e \<Rightarrow> Inl e | Inr su' \<Rightarrow> clear_styles es su')"

text \<open>The first loop: over the entries of \<open>oldProps\<close>.\<close>

fun diff_old :: "jsval \<Rightarrow> (string \<times> jsval) list \<Rightarrow> diff_acc \<Rightarrow> error + diff_acc" where
  "diff_old newProps [] acc = Inr acc"
| "diff_old newProps ((k, v) # es) acc =
     (case get_prop newProps k of
        Inl e \<Rightarrow> Inl e
      | Inr nv \<Rightarrow>
          if truthy nv then diff_old newProps es acc
          else if k = ''style'' then
            (case object_entries v of
               Inl e \<Rightarrow> Inl e
             | Inr ses \<Rightarrow>
                 (case clear_styles ses (snd acc) of
                    Inl e \<Rightarrow> Inl e
                  | Inr su \<Rightarrow> diff_old newProps es (fst acc, su)))
          else if startsWith_on k \<or> k = ''children'' then diff_old newProps es acc
          else diff_old newProps es (fst acc @ [JStr k, JNull], snd acc))"

text \<open>
  The two inner loops of the style branch: style keys of the old style that are falsy in
  the new one are cleared, style keys of the new one whose value differs are set.
\<close>

fun style_gone :: "jsval \<Rightarrow> (string \<times> jsval) list \<Rightarrow> jsval \<Rightarrow> error + jsval" where
  "style_gone v [] su = Inr su"
| "style_gone v ((sk, sv) # es) su =
     (case get_prop v sk of
        Inl e \<Rightarrow> Inl e
      | Inr x \<Rightarrow>
          if \<not> truthy x then
            (case style_set su sk (JStr []) of Inl e \<Rightarrow> Inl e | Inr su' \<Rightarrow> style_gone v es su')
          else style_gone v es su)"

fun style_changed :: "jsval \<Rightarrow> (string \<times> jsval) list \<Rightarrow> jsval \<Rightarrow> error + jsval" where
  "style_changed lastProp [] su = Inr su"
| "style_changed lastProp ((sk, sv) # es) su =
     (case get_prop lastProp sk of
        Inl e \<Rightarrow> Inl e
      | Inr x \<Rightarrow>
          if \<not> strict_eq sv x then
            (case style_set su sk sv of Inl e \<Rightarrow> Inl e | Inr su' \<Rightarrow> style_changed lastProp es su')
          else style_changed lastProp es su)"

text \<open>The second loop: over the entries of \<open>newProps\<close>.\<close>

fun diff_new :: "jsval \<Rightarrow> (string \<times> jsval) list \<Rightarrow> diff_acc \<Rightarrow> error + diff_acc" where
  "diff_new oldProps [] acc = Inr acc"
| "diff_new oldProps ((k, v) # es) acc =
     (case (if truthy oldProps then get_prop oldProps k else Inr JUndefined) of
        Inl e \<Rightarrow> Inl e
      | Inr lastProp \<Rightarrow>
          if strict_eq v lastProp then diff_new oldProps es acc
          else if k = ''style'' then
            (if truthy lastProp then
               (case object_entries lastProp of
                  Inl e \<Rightarrow> Inl e
                | Inr les \<Rightarrow>
                    (case style_gone v les (snd acc) of
                       Inl e \<Rightarrow> Inl e
                     | Inr su \<Rightarrow>
                         (case object_entries v of
                            Inl e \<Rightarrow> Inl e
                          | Inr ves \<Rightarrow>
                              (case style_changed lastProp ves su of
                                 Inl e \<Rightarrow> Inl e
                               | Inr su' \<Rightarrow> diff_new oldProps es (fst acc, su')))))
             else diff_new oldProps es (fst acc, v))
          else if k = ''children'' then
            (if typeof v = TString \<or> typeof v = TNumber
             then diff_new oldProps es (fst acc @ [JStr k, v], snd acc)
             else diff_new oldProps es acc)
          else if startsWith_on k then diff_new oldProps es acc
          else diff_new oldProps es (fst acc @ [JStr k, v], snd acc))"

text \<open>
  \<open>diffProperties(oldProps, newProps)\<close>.  The first argument of the model is the
  identity of the fresh object \<open>styleUpdates = {}\<close>.  The result is the update payload,
  or \<open>None\<close> for \<open>null\<close>.
\<close>

definition diffProperties :: "nat \<Rightarrow> jsval \<Rightarrow> jsval \<Rightarrow> error + jsval list option" where
  "diffProperties fresh oldProps newProps =
     (case object_entries oldProps of
        Inl e \<Rightarrow> Inl e
      | Inr oes \<Rightarrow>
          (case diff_old newProps oes ([], JObj fresh []) of
             Inl e \<Rightarrow> Inl e
           | Inr acc1 \<Rightarrow>
               (case object_entries newProps of
                  Inl e \<Rightarrow> Inl e
                | Inr nes \<Rightarrow>
                    (case diff_new oldProps nes acc1 of
                       Inl e \<Rightarrow> Inl e
                     | Inr acc2 \<Rightarrow>
                         (case object_entries (snd acc2) of
                            Inl e \<Rightarrow> Inl e
                          | Inr ks \<Rightarrow>
                              (let payload =
                                 (if length ks > 0 then fst acc2 @ [JStr ''style'', snd acc2]
                                  else fst acc2)
                               in Inr (if length payload > 0 then Some payload else None)))))))"

text \<open>The entries of a flat update payload: the pairs at positions \<open>2i\<close>, \<open>2i + 1\<close>.\<close>

fun payload_entries :: "jsval list \<Rightarrow> (jsval \<times> jsval) list" where
  "payload_entries (k # v # rest) = (k, v) # payload_entries rest"
| "payload_entries rest = []"

text \<open>
  Well-formed property objects for the diff: a \<open>style\<close> property, when present, is not
  \<open>null\<close> or \<open>undefined\<close> (\<open>Object.entries\<close> throws on them).
\<close>

definition good_style :: "(string \<times> jsval) list \<Rightarrow> bool" where
  "good_style ps = (\<forall>v. (''style'', v) \<in> set ps \<longrightarrow> v \<noteq> JNull \<and> v \<noteq> JUndefined)"

text \<open>
  The invariant of \<open>styleUpdates\<close> in the second loop: it is the engine's own object
  until the \<open>style\<close> entry replaces it by the new style value.
\<close>

definition su_ok :: "jsval \<Rightarrow> (string \<times> jsval) list \<Rightarrow> bool" where
  "su_ok su es = ((\<exists>i ps. su = JObj i ps) \<or> (su \<noteq> JNull \<and> su \<noteq> JUndefined \<and> ''style'' \<notin> fst ` set es))"

section \<open>fiber.js: work nodes\<close>

text \<open>
  The tags of \<open>constants.js\<close> (\<open>FunctionComponent = 0\<close>, \<open>ClassComponent = 1\<close>,
  \<open>HostRoot = 3\<close>, \<open>HostComponent = 5\<close>, \<open>HostText = 6\<close>, \<open>Fragment = 7\<close>) are only
  compared for equality.  The field \<open>tag\<close> of a work node holds one of them or \<open>null\<close>
  (\<open>None\<close>): \<open>createFiberFromElement\<close> leaves \<open>null\<close> when the element's type is
  neither a string nor a function.
\<close>

datatype work_tag = FunctionComponent | ClassComponent | HostRoot | HostComponent | HostText | Fragment

text \<open>
  \<open>stateNode\<close> is \<open>null\<close>, a host node, a class instance or, for the root work node, the
  root object.
\<close>

datatype state_node = NoNode | DomNode nat | Instance nat | RootObject

text \<open>
  Work nodes are mutable objects that refer to each other; they live in a store, and a
  reference is an address (\<open>None\<close> for \<open>null\<close>).  The record has the fields of
  \<open>FiberNode\<close>; the fields \<open>ref\<close>, \<open>index\<close>, \<open>mode\<close> and \<open>deletions\<close>, which no function of
  the repository reads or writes after the constructor, are left out.  \<open>updateQueue\<close> is the
  address of a queue object \<open>{pending}\<close>: \<open>createWorkInProgress\<close> shares it between the
  two generations.
\<close>

record fiber =
  tag :: "work_tag option"
  pendingProps :: jsval
  key :: jsval
  ftype :: jsval
  return :: "nat option"
  child :: "nat option"
  sibling :: "nat option"
  memoizedState :: jsval
  memoizedProps :: jsval
  updateQueue :: nat
  flags :: nat
  subtreeFlags :: nat
  lanes :: nat
  childLanes :: nat
  stateNode :: state_node
  alternate :: "nat option"

text \<open>An entry of the circular pending list of an update queue.\<close>

record update =
  u_payload :: jsval
  u_next :: "nat option"

text \<open>A class component instance: its class, \<open>props\<close>, \<open>state\<close> and \<open>_reactFiber\<close>.\<close>

record comp_instance =
  i_class :: nat
  i_props :: jsval
  i_state :: jsval
  i_reactFiber :: "nat option"

text \<open>The steps of the render loop, recorded in order (a ghost field of the state).\<close>

datatype step = Begin nat | Complete nat

text \<open>
  The state of the module \<open>index.js\<close>: the stores of work nodes, queue objects, update
  entries and instances with their allocation counters, the counters of host nodes and
  of object identities, the back reference \<open>internalFiber\<close> of host nodes, the log of
  host calls, the module variable \<open>workInProgress\<close>, \<open>root.current\<close>, \<open>root.container\<close>
  and the property \<open>current\<close> of the container node.
\<close>

record rstate =
  fibers :: "nat \<Rightarrow> fiber"
  next_fiber :: nat
  queues :: "nat \<Rightarrow> nat option"
  next_queue :: nat
  updates :: "nat \<Rightarrow> update"
  instances :: "nat \<Rightarrow> comp_instance"
  next_instance :: nat
  next_dom :: nat
  next_obj :: nat
  internalFiber :: "nat \<Rightarrow> nat option"
  hostlog :: "host_call list"
  workInProgress :: "nat option"
  root_current :: nat
  root_container :: nat
  container_current :: "nat option"
  trace :: "step list"

text \<open>
  The components a description names are the caller's code.  A function value
  \<open>JFun f\<close> is interpreted by an environment: whether it is a class
  (\<open>type.isReactComponent\<close>), what a function component returns for its props, the
  state a class instance has after its constructor, and what \<open>render()\<close> returns for
  the instance's props and state.  Components are taken to return normally.
\<close>

record env =
  is_class :: "nat \<Rightarrow> bool"
  fn_call :: "nat \<Rightarrow> jsval \<Rightarrow> jsval"
  cls_new :: "nat \<Rightarrow> jsval \<Rightarrow> jsval"
  cls_render :: "nat \<Rightarrow> jsval \<Rightarrow> jsval \<Rightarrow> jsval"

definition upd_fiber :: "nat \<Rightarrow> (fiber \<Rightarrow> fiber) \<Rightarrow> rstate \<Rightarrow> rstate" where
  "upd_fiber a f st = st\<lparr>fibers := (fibers st)(a := f (fibers st a))\<rparr>"

text \<open>\<open>new FiberNode(tag, pendingProps, key)\<close>, with its fresh queue object.\<close>

definition FiberNode :: "work_tag option \<Rightarrow> jsval \<Rightarrow> jsval \<Rightarrow> nat \<Rightarrow> fiber" where
  "FiberNode tg pp k q =
     \<lparr>tag = tg, pendingProps = pp, key = k, ftype = JNull, return = None, child = None,
      sibling = None, memoizedState = JNull, memoizedProps = JNull, updateQueue = q,
      flags = 0, subtreeFlags = 0, lanes = 0, childLanes = 0, stateNode = NoNode,
      alternate = None\<rparr>"

definition createFiber :: "work_tag option \<Rightarrow> jsval \<Rightarrow> jsval \<Rightarrow> rstate \<Rightarrow> nat \<times> rstate" where
  "createFiber tg pp k st =
     (let a = next_fiber st; q = next_queue st in
      (a, st\<lparr>fibers := (fibers st)(a := FiberNode tg pp k q),
             next_fiber := Suc a,
             queues := (queues st)(q := None),
             next_queue := Suc q\<rparr>))"

text \<open>
  \<open>createFiberFromElement(element)\<close>.  The caller passes a truthy value, so the three
  property reads of the destructuring do not throw; the reads are modelled all the same.
\<close>

definition createFiberFromElement :: "env \<Rightarrow> jsval \<Rightarrow> rstate \<Rightarrow> error + nat \<times> rstate" where
  "createFiberFromElement en element st =
     (case get_prop element ''type'' of
        Inl e \<Rightarrow> Inl e
      | Inr ty \<Rightarrow>
          (case get_prop element ''props'' of
             Inl e \<Rightarrow> Inl e
           | Inr props \<Rightarrow>
               (case get_prop element ''key'' of
                  Inl e \<Rightarrow> Inl e
                | Inr k \<Rightarrow>
                    (let tg = (case ty of
                                 JStr s \<Rightarrow> Some HostComponent
                               | JFun f \<Rightarrow> (if is_class en f then Some ClassComponent
                                            else Some FunctionComponent)
                               | _ \<Rightarrow> None);
                         (a, st1) = createFiber tg props k st
                     in Inr (a, upd_fiber a (\<lambda>f. f\<lparr>ftype := ty\<rparr>) st1)))))"

definition createHostRootFiber :: "rstate \<Rightarrow> nat \<times> rstate" where
  "createHostRootFiber st = createFiber (Some HostRoot) JNull JNull st"

text \<open>\<open>createWorkInProgress(current, pendingProps)\<close>.\<close>

definition createWorkInProgress :: "nat \<Rightarrow> jsval \<Rightarrow> rstate \<Rightarrow> nat \<times> rstate" where
  "createWorkInProgress current pp st =
     (let (w, st1) =
        (case alternate (fibers st current) of
           None \<Rightarrow>
             (let (w, s1) = createFiber (tag (fibers st current)) pp (key (fibers st current)) st;
                  s2 = upd_fiber w (\<lambda>f. f\<lparr>stateNode := stateNode (fibers s1 current),
                                           alternate := Some current\<rparr>) s1;
                  s3 = upd_fiber current (\<lambda>f. f\<lparr>alternate := Some w\<rparr>) s2
              in (w, s3))
         | Some w \<Rightarrow> (w, upd_fiber w (\<lambda>f. f\<lparr>pendingProps := pp\<rparr>) st));
          c = fibers st1 current
      in (w, upd_fiber w (\<lambda>f. f\<lparr>ftype := ftype c, child := child c,
                                 updateQueue := updateQueue c, lanes := lanes c,
                                 childLanes := childLanes c\<rparr>) st1))"

section \<open>dom.js: attaching the host nodes of the children\<close>

text \<open>
  The inner loop of \<open>appendChildren\<close>: while the node has no sibling, go up; \<open>None\<close> when
  the loop ends the function (\<open>childFiber.return === workInProgress\<close>), the sibling to
  continue with otherwise.  Reading \<open>sibling\<close> of \<open>null\<close> throws.  The loops of the
  module need not end on every store, so each takes fuel.
\<close>

fun climb :: "nat \<Rightarrow> (nat \<Rightarrow> fiber) \<Rightarrow> nat \<Rightarrow> nat \<Rightarrow> error + nat option" where
  "climb 0 fs w c = Inl OutOfFuel"
| "climb (Suc n) fs w c =
     (case sibling (fs c) of
        Some s \<Rightarrow> Inr (Some s)
      | None \<Rightarrow>
          if return (fs c) = Some w then Inr None
          else (case return (fs c) of
                  None \<Rightarrow> Inl TypeError
                | Some p \<Rightarrow> climb n fs w p))"

text \<open>
  The outer loop.  \<open>dom.appendChild\<close> is given the child's \<open>stateNode\<close>; the host
  throws unless that is a host node.
\<close>

fun appendChildren_loop ::
  "nat \<Rightarrow> (nat \<Rightarrow> fiber) \<Rightarrow> nat \<Rightarrow> nat \<Rightarrow> nat option \<Rightarrow> host_call list \<Rightarrow> error + host_call list" where
  "appendChildren_loop 0 fs el w cf lg = Inl OutOfFuel"
| "appendChildren_loop (Suc n) fs el w None lg = Inr lg"
| "appendChildren_loop (Suc n) fs el w (Some c) lg =
     (if tag (fs c) = Some HostComponent \<or> tag (fs c) = Some HostText then
        (case stateNode (fs c) of
           DomNode x \<Rightarrow>
             (let lg' = lg @ [AppendChild el x] in
              if c = w then Inr lg'
              else (case climb n fs w c of
                      Inl e \<Rightarrow> Inl e
                    | Inr None \<Rightarrow> Inr lg'
                    | Inr (Some s) \<Rightarrow> appendChildren_loop n fs el w (Some s) lg'))
         | _ \<Rightarrow> Inl TypeError)
      else appendChildren_loop n fs el w (child (fs c)) lg)"

definition appendChildren ::
  "nat \<Rightarrow> (nat \<Rightarrow> fiber) \<Rightarrow> nat \<Rightarrow> nat \<Rightarrow> host_call list \<Rightarrow> error + host_call list" where
  "appendChildren fuel fs el w lg = appendChildren_loop fuel fs el w (child (fs w)) lg"

section \<open>index.js: the begin phase\<close>

text \<open>
  Object spread \<open>{...a, ...b}\<close>: the own enumerable properties of \<open>a\<close>, then those of
  \<open>b\<close>, assigned in order to a new object; \<open>null\<close> and \<open>undefined\<close> contribute nothing.
\<close>

definition spread_entries :: "jsval \<Rightarrow> (string \<times> jsval) list" where
  "spread_entries v = (case object_entries v of Inl e \<Rightarrow> [] | Inr es \<Rightarrow> es)"

definition spread_into :: "(string \<times> jsval) list \<Rightarrow> (string \<times> jsval) list \<Rightarrow> (string \<times> jsval) list" where
  "spread_into ps es = foldl (\<lambda>qs kv. assign_entry qs (fst kv) (snd kv)) ps es"

definition object_spread :: "jsval \<Rightarrow> jsval \<Rightarrow> (string \<times> jsval) list" where
  "object_spread a b = spread_into (spread_into [] (spread_entries a)) (spread_entries b)"

text \<open>
  The \<open>do ... while (next)\<close> loop of the class component branch, entered with a non-null
  \<open>next\<close>: merge the payload, stop at \<open>pendingState\<close>, else follow \<open>next.next\<close> while it
  is not \<open>null\<close>.  The arguments are the store of update entries, \<open>pendingState\<close>,
  \<open>next\<close>, \<open>newState\<close> and the counter of object identities; the result is the last
  \<open>newState\<close> and the counter.
\<close>

fun merge_loop ::
  "nat \<Rightarrow> (nat \<Rightarrow> update) \<Rightarrow> nat \<Rightarrow> nat \<Rightarrow> jsval \<Rightarrow> nat \<Rightarrow> error + jsval \<times> nat" where
  "merge_loop 0 us p u newState ob = Inl OutOfFuel"
| "merge_loop (Suc n) us p u newState ob =
     (let newState' = JObj ob (object_spread newState (u_payload (us u))) in
      if u = p then Inr (newState', Suc ob)
      else (case u_next (us u) of
              None \<Rightarrow> Inr (newState', Suc ob)
            | Some u' \<Rightarrow> merge_loop n us p u' newState' (Suc ob)))"

text \<open>
  The \<open>switch\<close> of \<open>beginWork\<close>: the child description \<open>nextChildren\<close> and the state
  after the branch, or \<open>None\<close> for the \<open>default\<close> branch, which returns at once.  In the
  update branch of a class component a \<open>stateNode\<close> that is not an instance has no
  \<open>state\<close> (the loop runs on \<open>undefined\<close>) and no \<open>render\<close> (the call throws).
\<close>

definition resolve_children ::
  "env \<Rightarrow> nat \<Rightarrow> nat option \<Rightarrow> nat \<Rightarrow> rstate \<Rightarrow> error + (jsval \<times> rstate) option" where
  "resolve_children en fuel current w st =
     (let wf = fibers st w in
      case tag wf of
        Some HostRoot \<Rightarrow>
          (case get_prop (pendingProps wf) ''children'' of
             Inl e \<Rightarrow> Inl e
           | Inr c \<Rightarrow> Inr (Some (c, st)))
      | Some HostComponent \<Rightarrow>
          (case get_prop (pendingProps wf) ''children'' of
             Inl e \<Rightarrow> Inl e
           | Inr c \<Rightarrow>
               Inr (Some (if typeof c = TString \<or> typeof c = TNumber then JNull else c, st)))
      | Some HostText \<Rightarrow> Inr (Some (JNull, st))
      | Some FunctionComponent \<Rightarrow>
          (case ftype wf of
             JFun f \<Rightarrow> Inr (Some (fn_call en f (pendingProps wf), st))
           | _ \<Rightarrow> Inl TypeError)
      | Some ClassComponent \<Rightarrow>
          (case current of
             None \<Rightarrow>
               (case ftype wf of
                  JFun c \<Rightarrow>
                    (let i = next_instance st;
                         inst = \<lparr>i_class = c, i_props = pendingProps wf,
                                 i_state = cls_new en c (pendingProps wf),
                                 i_reactFiber = Some w\<rparr>;
                         st1 = st\<lparr>instances := (instances st)(i := inst),
                                  next_instance := Suc i\<rparr>;
                         st2 = upd_fiber w (\<lambda>f. f\<lparr>stateNode := Instance i\<rparr>) st1
                     in Inr (Some (cls_render en c (i_props inst) (i_state inst), st2)))
                | _ \<Rightarrow> Inl TypeError)
           | Some cur \<Rightarrow>
               (case (case stateNode wf of
                        NoNode \<Rightarrow> Inl TypeError
                      | Instance i \<Rightarrow> Inr (i_state (instances st i))
                      | _ \<Rightarrow> Inr JUndefined) of
                  Inl e \<Rightarrow> Inl e
                | Inr state0 \<Rightarrow>
                    (case queues st (updateQueue (fibers st cur)) of
                       None \<Rightarrow> Inl TypeError
                     | Some pendingState \<Rightarrow>
                         (case u_next (updates st pendingState) of
                            None \<Rightarrow> Inl TypeError
                          | Some nxt \<Rightarrow>
                              (case merge_loop fuel (updates st) pendingState nxt state0
                                      (next_obj st) of
                                 Inl e \<Rightarrow> Inl e
                               | Inr (newState, ob) \<Rightarrow>
                                   (case stateNode wf of
                                      Instance i \<Rightarrow>
                                        (let inst = (instances st i)\<lparr>i_state := newState\<rparr>;
                                             st1 = st\<lparr>instances := (instances st)(i := inst),
                                                      next_obj := ob\<rparr>
                                         in Inr (Some (cls_render en (i_class inst) (i_props inst)
                                                         (i_state inst), st1)))
                                    | _ \<Rightarrow> Inl TypeError))))))
      | _ \<Rightarrow> Inr None)"

text \<open>
  \<open>beginWork(current, workInProgress)\<close>: the next work node (\<open>None\<close> for \<open>null\<close> and
  for \<open>undefined\<close>) and the state.
\<close>

definition beginWork ::
  "env \<Rightarrow> nat \<Rightarrow> nat option \<Rightarrow> nat \<Rightarrow> rstate \<Rightarrow> error + nat option \<times> rstate" where
  "beginWork en fuel current w st =
     (case resolve_children en fuel current w st of
        Inl e \<Rightarrow> Inl e
      | Inr None \<Rightarrow> Inr (None, st)
      | Inr (Some (nextChildren, st1)) \<Rightarrow>
          if \<not> truthy nextChildren then Inr (None, upd_fiber w (\<lambda>f. f\<lparr>child := None\<rparr>) st1)
          else
            (case createFiberFromElement en nextChildren st1 of
               Inl e \<Rightarrow> Inl e
             | Inr (c, st2) \<Rightarrow>
                 (let st3 = upd_fiber c (\<lambda>f. f\<lparr>return := Some w\<rparr>) st2;
                      st4 = upd_fiber w (\<lambda>f. f\<lparr>child := Some c\<rparr>) st3
                  in Inr (child (fibers st4 w), st4))))"

section \<open>index.js: the complete phase\<close>

text \<open>
  \<open>completeWork(workInProgress)\<close>.  \<open>document.createElement\<close> and
  \<open>document.createTextNode\<close> answer a new host node.
\<close>

definition completeWork :: "nat \<Rightarrow> nat \<Rightarrow> rstate \<Rightarrow> error + rstate" where
  "completeWork fuel w st =
     (let wf = fibers st w in
      case tag wf of
        Some HostComponent \<Rightarrow>
          (let el = next_dom st;
               log1 = hostlog st @ [CreateElement el (ftype wf)]
           in case appendChildren fuel (fibers st) el w log1 of
                Inl e \<Rightarrow> Inl e
              | Inr log2 \<Rightarrow>
                  (case setInitialProps el (pendingProps wf) log2 of
                     Inl e \<Rightarrow> Inl e
                   | Inr log3 \<Rightarrow>
                       Inr ((upd_fiber w (\<lambda>f. f\<lparr>stateNode := DomNode el\<rparr>) st)
                              \<lparr>next_dom := Suc el,
                               internalFiber := (internalFiber st)(el := Some w),
                               hostlog := log3\<rparr>)))
      | Some HostText \<Rightarrow>
          (let el = next_dom st in
           Inr ((upd_fiber w (\<lambda>f. f\<lparr>stateNode := DomNode el\<rparr>) st)
                  \<lparr>next_dom := Suc el,
                   hostlog := hostlog st @ [CreateTextNode el (pendingProps wf)]\<rparr>))
      | _ \<Rightarrow> Inr st)"

section \<open>index.js: the render loop and the commit\<close>

text \<open>
  The \<open>do ... while (workInProgress)\<close> loop of \<open>renderRootSync\<close>, entered with the work
  node \<open>w\<close>: complete it, then go to its sibling (\<open>break\<close>) or up to its parent.
\<close>

fun unwind :: "nat \<Rightarrow> nat \<Rightarrow> rstate \<Rightarrow> error + rstate" where
  "unwind 0 w st = Inl OutOfFuel"
| "unwind (Suc n) w st =
     (case completeWork n w (st\<lparr>trace := trace st @ [Complete w]\<rparr>) of
        Inl e \<Rightarrow> Inl e
      | Inr st1 \<Rightarrow>
          (case sibling (fibers st1 w) of
             Some s \<Rightarrow> Inr (st1\<lparr>workInProgress := Some s\<rparr>)
           | None \<Rightarrow>
               (case return (fibers st1 w) of
                  None \<Rightarrow> Inr (st1\<lparr>workInProgress := None\<rparr>)
                | Some p \<Rightarrow> unwind n p (st1\<lparr>workInProgress := Some p\<rparr>))))"

text \<open>\<open>renderRootSync()\<close>: the outer \<open>while (workInProgress)\<close> loop.\<close>

fun renderRootSync :: "env \<Rightarrow> nat \<Rightarrow> rstate \<Rightarrow> error + rstate" where
  "renderRootSync en 0 st = Inl OutOfFuel"
| "renderRootSync en (Suc n) st =
     (case workInProgress st of
        None \<Rightarrow> Inr st
      | Some w \<Rightarrow>
          (case beginWork en n (alternate (fibers st w)) w (st\<lparr>trace := trace st @ [Begin w]\<rparr>) of
             Inl e \<Rightarrow> Inl e
           | Inr (nxt, st1) \<Rightarrow>
               (let st2 = upd_fiber w (\<lambda>f. f\<lparr>memoizedProps := pendingProps f\<rparr>) st1 in
                case nxt of
                  Some c \<Rightarrow> renderRootSync en n (st2\<lparr>workInProgress := Some c\<rparr>)
                | None \<Rightarrow>
                    (case unwind n w st2 of
                       Inl e \<Rightarrow> Inl e
                     | Inr st3 \<Rightarrow> renderRootSync en n st3))))"

text \<open>
  The loop of \<open>commitRoot\<close>: down the first-child links to the first host component
  that has a host node; the result is that host node, if there is one.
\<close>

fun first_host :: "nat \<Rightarrow> (nat \<Rightarrow> fiber) \<Rightarrow> nat option \<Rightarrow> error + nat option" where
  "first_host 0 fs cf = Inl OutOfFuel"
| "first_host (Suc n) fs None = Inr None"
| "first_host (Suc n) fs (Some c) =
     (case (tag (fs c), stateNode (fs c)) of
        (Some HostComponent, DomNode x) \<Rightarrow> Inr (Some x)
      | (Some HostComponent, Instance i) \<Rightarrow> Inl TypeError
      | (Some HostComponent, RootObject) \<Rightarrow> Inl TypeError
      | _ \<Rightarrow> first_host n fs (child (fs c)))"

text \<open>
  \<open>commitRoot()\<close>: \<open>finishedWork = root.current.alternate\<close>; the first host node
  below it is appended to the container; then \<open>container.current = finishedWork\<close>.
\<close>

definition commitRoot :: "nat \<Rightarrow> rstate \<Rightarrow> error + rstate" where
  "commitRoot fuel st =
     (case alternate (fibers st (root_current st)) of
        None \<Rightarrow> Inl TypeError
      | Some finishedWork \<Rightarrow>
          (case first_host fuel (fibers st) (child (fibers st finishedWork)) of
             Inl e \<Rightarrow> Inl e
           | Inr h \<Rightarrow>
               Inr (st\<lparr>hostlog := (case h of
                                      None \<Rightarrow> hostlog st
                                    | Some x \<Rightarrow> hostlog st @ [AppendChild (root_container st) x]),
                       container_current := Some finishedWork\<rparr>)))"

text \<open>\<open>render()\<close>: the render phase, then the commit.\<close>

definition render :: "env \<Rightarrow> nat \<Rightarrow> rstate \<Rightarrow> error + rstate" where
  "render en fuel st =
     (case renderRootSync en fuel st of
        Inl e \<Rightarrow> Inl e
      | Inr st1 \<Rightarrow> commitRoot fuel st1)"

text \<open>
  The state the module sets up before it calls \<open>render()\<close>: the root work node
  \<open>hostRootFiber\<close> with \<open>root.current = hostRootFiber\<close> and
  \<open>hostRootFiber.stateNode = root\<close>, and its work-in-progress twin made by
  \<open>createWorkInProgress(hostRootFiber, {children: element})\<close>.  The container is host
  node \<open>0\<close>; \<open>props\<close> is the object \<open>{children: element}\<close>.
\<close>

definition empty_state :: rstate where
  "empty_state =
     \<lparr>fibers = (\<lambda>a. FiberNode None JNull JNull 0), next_fiber = 0,
      queues = (\<lambda>q. None), next_queue = 0,
      updates = (\<lambda>u. \<lparr>u_payload = JUndefined, u_next = None\<rparr>),
      instances = (\<lambda>i. \<lparr>i_class = 0, i_props = JUndefined, i_state = JUndefined,
                         i_reactFiber = None\<rparr>),
      next_instance = 0, next_dom = 1, next_obj = 0,
      internalFiber = (\<lambda>d. None), hostlog = [], workInProgress = None,
      root_current = 0, root_container = 0, container_current = None, trace = []\<rparr>"

definition init_state :: "jsval \<Rightarrow> rstate" where
  "init_state props =
     (let (hostRootFiber, st1) = createHostRootFiber empty_state;
          st2 = (upd_fiber hostRootFiber (\<lambda>f. f\<lparr>stateNode := RootObject\<rparr>) st1)
                  \<lparr>root_current := hostRootFiber\<rparr>;
          (w, st3) = createWorkInProgress hostRootFiber props st2
      in st3\<lparr>workInProgress := Some w\<rparr>)"

section \<open>listenToAllEvents.js: event delegation\<close>

text \<open>
  A native event: its target host node, its type, and its own enumerable properties
  (\<open>Object.keys(event)\<close>).
\<close>

record native_event =
  target :: nat
  etype :: string
  own_fields :: "(string \<times> jsval) list"

text \<open>
  A synthetic event wraps the native event and copies its own properties, but for
  \<open>preventDefault\<close> and \<open>stopPropagation\<close>, which become functions that do nothing.
\<close>

datatype syn_field = Stub | Copied jsval

record synthetic_event =
  nativeEvent :: native_event
  syn_fields :: "(string \<times> syn_field) list"

definition SyntheticEvent :: "native_event \<Rightarrow> synthetic_event" where
  "SyntheticEvent ev =
     \<lparr>nativeEvent = ev,
      syn_fields = map (\<lambda>(k, v). (k, if k = ''preventDefault'' then Stub
                                         else if k = ''stopPropagation'' then Stub
                                         else Copied v)) (own_fields ev)\<rparr>"

text \<open>\<open>toUpperCase\<close> on one character (the event types are ASCII).\<close>

definition toUpperCase_char :: "char \<Rightarrow> char" where
  "toUpperCase_char c =
     (case map_of (zip ''abcdefghijklmnopqrstuvwxyz'' ''ABCDEFGHIJKLMNOPQRSTUVWXYZ'') c of
        Some u \<Rightarrow> u
      | None \<Rightarrow> c)"

text \<open>
  \<open>`on` + type[0].toUpperCase() + type.slice(1)\<close>; \<open>type[0]\<close> of the empty string is
  \<open>undefined\<close>, and the call on it throws.
\<close>

definition reactEventName :: "string \<Rightarrow> error + string" where
  "reactEventName t =
     (case t of
        [] \<Rightarrow> Inl TypeError
      | c # cs \<Rightarrow> Inr (''on'' @ [toUpperCase_char c] @ cs))"

text \<open>
  The loop of \<open>accumulateListeners\<close>: up the \<open>return\<close> links, collecting the truthy
  property \<open>reactEventName\<close> of the memoized props of every host component that has a
  \<open>stateNode\<close>.
\<close>

fun accumulate_loop ::
  "nat \<Rightarrow> (nat \<Rightarrow> fiber) \<Rightarrow> string \<Rightarrow> nat option \<Rightarrow> jsval list \<Rightarrow> error + jsval list" where
  "accumulate_loop 0 fs name cf listeners = Inl OutOfFuel"
| "accumulate_loop (Suc n) fs name None listeners = Inr listeners"
| "accumulate_loop (Suc n) fs name (Some c) listeners =
     (if tag (fs c) = Some HostComponent \<and> stateNode (fs c) \<noteq> NoNode then
        (case get_prop (memoizedProps (fs c)) name of
           Inl e \<Rightarrow> Inl e
         | Inr listener \<Rightarrow>
             accumulate_loop n fs name (return (fs c))
               (if truthy listener then listeners @ [listener] else listeners))
      else accumulate_loop n fs name (return (fs c)) listeners)"

definition accumulateListeners ::
  "nat \<Rightarrow> (nat \<Rightarrow> fiber) \<Rightarrow> string \<Rightarrow> nat option \<Rightarrow> error + jsval list" where
  "accumulateListeners fuel fs name fiber = accumulate_loop fuel fs name fiber []"

text \<open>
  The calls of the listeners, in order: each is given the synthetic event.  Calling a
  value that is not a function throws.  The listeners are the caller's code; a call is
  recorded as the function called and its argument.  (A listener is read under a name
  that starts with \<open>on\<close>, which no member of \<open>Object.prototype\<close> has: it is an own
  property, a value the caller gave.)
\<close>

fun call_listeners :: "jsval list \<Rightarrow> synthetic_event \<Rightarrow> error + (nat \<times> synthetic_event) list" where
  "call_listeners [] se = Inr []"
| "call_listeners (JFun f # ls) se =
     (case call_listeners ls se of Inl e \<Rightarrow> Inl e | Inr cs \<Rightarrow> Inr ((f, se) # cs))"
| "call_listeners (v # ls) se = Inl TypeError"

text \<open>\<open>dispatchEvent(event)\<close>: the list of listener calls it makes.\<close>

definition dispatchEvent ::
  "nat \<Rightarrow> rstate \<Rightarrow> native_event \<Rightarrow> error + (nat \<times> synthetic_event) list" where
  "dispatchEvent fuel st ev =
     (case reactEventName (etype ev) of
        Inl e \<Rightarrow> Inl e
      | Inr name \<Rightarrow>
          (case accumulateListeners fuel (fibers st) name (internalFiber st (target ev)) of
             Inl e \<Rightarrow> Inl e
           | Inr listeners \<Rightarrow> call_listeners listeners (SyntheticEvent ev)))"

section \<open>build-your-own-react/createElement.js: the reconciler with effect tags\<close>

text \<open>
  A description of this engine is \<open>{type, props}\<close> with a string \<open>type\<close>; its \<open>props\<close>
  hold the array \<open>children\<close> of descriptions, which \<open>createElement\<close> always sets, and the
  other properties.  \<open>children\<close> is never read as a property of the host node (every
  loop over the keys filters it out), so the model keeps it apart from the entries of
  the other properties, which are in \<open>Object.keys\<close> order.  \<open>createElement\<close> wraps
  every child that is not an object in a text description; a child that is \<open>null\<close> or
  an array, which it would keep as it is, is not modelled.
\<close>

datatype element = Element (el_type: string) (el_props: props)
  and props = Props (p_attrs: "(string \<times> jsval) list") (p_children: "element list")

datatype effect = PLACEMENT | UPDATE | DELETION

text \<open>
  A fiber of this engine.  The root fiber has no \<open>type\<close>, no \<open>parent\<close> and no
  \<open>effectTag\<close> (\<open>undefined\<close>, here \<open>None\<close>).
\<close>

record dfiber =
  f_type :: "string option"
  f_props :: props
  f_dom :: "nat option"
  f_parent :: "nat option"
  f_child :: "nat option"
  f_sibling :: "nat option"
  f_alternate :: "nat option"
  f_effectTag :: "effect option"

text \<open>
  The module state (the functions \<open>render\<close> and \<open>commitRoot\<close> of this module are
  \<open>drender\<close> and \<open>dcommitRoot\<close> below, the plain names being those of \<open>index.js\<close>): the
  store of fibers with its allocation counter, the module variables \<open>nextUnitOfWork\<close>,
  \<open>currentRoot\<close>, \<open>wipRoot\<close> and \<open>deletions\<close> (\<open>null\<close> until the first \<open>render\<close>), and the
  host: the log of the calls it has accepted, the counter of host nodes, the parent of
  every host node in the host tree (\<open>None\<close> for a node that is in no parent) and which
  host nodes are text nodes.
\<close>

record dstate =
  dheap :: "nat \<Rightarrow> dfiber"
  dnext :: nat
  nextUnitOfWork :: "nat option"
  currentRoot :: "nat option"
  wipRoot :: "nat option"
  deletions :: "nat list option"
  dlog :: "host_call list"
  dnext_dom :: nat
  dparent :: "nat \<Rightarrow> nat option"
  dtext :: "nat \<Rightarrow> bool"

definition upd_dfiber :: "nat \<Rightarrow> (dfiber \<Rightarrow> dfiber) \<Rightarrow> dstate \<Rightarrow> dstate" where
  "upd_dfiber a f st = st\<lparr>dheap := (dheap st)(a := f (dheap st a))\<rparr>"

definition alloc_dfiber :: "dfiber \<Rightarrow> dstate \<Rightarrow> nat \<times> dstate" where
  "alloc_dfiber f st = (dnext st, st\<lparr>dheap := (dheap st)(dnext st := f), dnext := Suc (dnext st)\<rparr>)"

text \<open>
  The host tree.  \<open>parent.appendChild(node)\<close> throws when the parent is a text node or
  when the node is the parent or one of its ancestors; else the node leaves the parent
  it had and becomes a child of this one.  \<open>parent.removeChild(node)\<close> throws unless the
  node is a child of the parent.  The walk up from a host node takes at most as many
  steps as there are host nodes.  The host is taken to accept every element name and
  every write of a property, and a write of a property is taken to leave the host tree as
  it is.
\<close>

fun inclusive_ancestor :: "nat \<Rightarrow> (nat \<Rightarrow> nat option) \<Rightarrow> nat \<Rightarrow> nat \<Rightarrow> bool" where
  "inclusive_ancestor 0 par a x = (a = x)"
| "inclusive_ancestor (Suc n) par a x =
     (a = x \<or> (case par x of None \<Rightarrow> False | Some p \<Rightarrow> inclusive_ancestor n par a p))"

definition host_appendChild :: "nat \<Rightarrow> nat \<Rightarrow> dstate \<Rightarrow> error + dstate" where
  "host_appendChild pd d st =
     (if dtext st pd \<or> inclusive_ancestor (Suc (dnext_dom st)) (dparent st) d pd
      then Inl HostError
      else Inr (st\<lparr>dparent := (dparent st)(d := Some pd),
                    dlog := dlog st @ [AppendChild pd d]\<rparr>))"

definition host_removeChild :: "nat \<Rightarrow> nat \<Rightarrow> dstate \<Rightarrow> error + dstate" where
  "host_removeChild pd d st =
     (if dparent st d = Some pd
      then Inr (st\<lparr>dparent := (dparent st)(d := None),
                    dlog := dlog st @ [RemoveChild pd d]\<rparr>)
      else Inl HostError)"

text \<open>\<open>props[key]\<close> on the entries.\<close>

definition prop_lookup :: "(string \<times> jsval) list \<Rightarrow> string \<Rightarrow> jsval" where
  "prop_lookup ps k = obj_read ps k"

definition isEvent :: "string \<Rightarrow> bool" where
  "isEvent k = startsWith_on k"

definition isProperty :: "string \<Rightarrow> bool" where
  "isProperty k = (k \<noteq> ''children'' \<and> \<not> isEvent k)"

definition isNew :: "(string \<times> jsval) list \<Rightarrow> (string \<times> jsval) list \<Rightarrow> string \<Rightarrow> bool" where
  "isNew prev nxt k = (\<not> strict_eq (prop_lookup prev k) (prop_lookup nxt k))"

definition isGone :: "(string \<times> jsval) list \<Rightarrow> (string \<times> jsval) list \<Rightarrow> string \<Rightarrow> bool" where
  "isGone prev nxt k = (\<not> has_property nxt k)"

definition toLowerCase_char :: "char \<Rightarrow> char" where
  "toLowerCase_char c =
     (case map_of (zip ''ABCDEFGHIJKLMNOPQRSTUVWXYZ'' ''abcdefghijklmnopqrstuvwxyz'') c of
        Some l \<Rightarrow> l
      | None \<Rightarrow> c)"

text \<open>\<open>name.toLowerCase().substring(2)\<close>.\<close>

definition eventType :: "string \<Rightarrow> string" where
  "eventType name = drop 2 (map toLowerCase_char name)"

text \<open>\<open>updateDom(dom, prevProps, nextProps)\<close>: the host calls of its four passes.\<close>

definition updateDom :: "nat \<Rightarrow> (string \<times> jsval) list \<Rightarrow> (string \<times> jsval) list \<Rightarrow> host_call list" where
  "updateDom el prev nxt =
     map (\<lambda>k. SetProp el k (JStr []))
       (filter (isGone prev nxt) (filter isProperty (map fst prev)))
     @ map (\<lambda>k. SetProp el k (prop_lookup nxt k))
       (filter (isNew prev nxt) (filter isProperty (map fst nxt)))
     @ map (\<lambda>k. RemoveEventListener el (eventType k) (prop_lookup prev k))
       (filter (\<lambda>k. \<not> has_property nxt k \<or> isNew prev nxt k) (filter isEvent (map fst prev)))
     @ map (\<lambda>k. AddEventListener el (eventType k) (prop_lookup nxt k))
       (filter (isNew prev nxt) (filter isEvent (map fst nxt)))"

text \<open>\<open>undefined\<close> or the string, as a value.\<close>

definition type_value :: "string option \<Rightarrow> jsval" where
  "type_value t = (case t of None \<Rightarrow> JUndefined | Some s \<Rightarrow> JStr s)"

text \<open>\<open>createDom(fiber)\<close>: the new host node, with the host calls logged.\<close>

definition createDom :: "dfiber \<Rightarrow> dstate \<Rightarrow> nat \<times> dstate" where
  "createDom f st =
     (let el = dnext_dom st;
          mk = (if f_type f = Some ''TEXT_ELEMENT'' then CreateTextNode el (JStr [])
                else CreateElement el (type_value (f_type f)))
      in (el, st\<lparr>dnext_dom := Suc el,
                 dparent := (dparent st)(el := None),
                 dtext := (dtext st)(el := (f_type f = Some ''TEXT_ELEMENT'')),
                 dlog := dlog st @ [mk]
                   @ map (\<lambda>k. SetProp el k (prop_lookup (p_attrs (f_props f)) k))
                       (filter (\<lambda>k. k \<noteq> ''children'') (map fst (p_attrs (f_props f))))\<rparr>))"

text \<open>
  The blocks of one turn of the loop of \<open>reconcileChildren(wipFiber, elements)\<close>.
  \<open>element\<close> is \<open>elements[index]\<close>, which is \<open>undefined\<close> (\<open>None\<close>) past the end of the
  array.
\<close>

text \<open>\<open>const sameType = oldFiber && element && element.type == oldFiber.type\<close>.\<close>

definition sameType :: "nat option \<Rightarrow> element option \<Rightarrow> dstate \<Rightarrow> bool" where
  "sameType oldFiber element st =
     (case (oldFiber, element) of
        (Some old, Some e) \<Rightarrow> Some (el_type e) = f_type (dheap st old)
      | _ \<Rightarrow> False)"

text \<open>
  \<open>newFiber\<close>: the fiber made \<open>if (sameType)\<close> (an update that reuses the host node of the
  old fiber), the one made \<open>if (element && !sameType)\<close> (a placement), or \<open>null\<close>.
\<close>

definition make_newFiber ::
  "nat \<Rightarrow> nat option \<Rightarrow> element option \<Rightarrow> dstate \<Rightarrow> nat option \<times> dstate" where
  "make_newFiber w oldFiber element st =
     (if sameType oldFiber element st then
        (case (oldFiber, element) of
           (Some old, Some e) \<Rightarrow>
             (let (a, s) = alloc_dfiber
                    \<lparr>f_type = f_type (dheap st old), f_props = el_props e,
                     f_dom = f_dom (dheap st old), f_parent = Some w,
                     f_child = None, f_sibling = None, f_alternate = Some old,
                     f_effectTag = Some UPDATE\<rparr> st
              in (Some a, s))
         | _ \<Rightarrow> (None, st))
      else
        (case element of
           Some e \<Rightarrow>
             (let (a, s) = alloc_dfiber
                    \<lparr>f_type = Some (el_type e), f_props = el_props e,
                     f_dom = None, f_parent = Some w,
                     f_child = None, f_sibling = None, f_alternate = None,
                     f_effectTag = Some PLACEMENT\<rparr> st
              in (Some a, s))
         | None \<Rightarrow> (None, st)))"

text \<open>
  \<open>if (oldFiber && !sameType) { oldFiber.effectTag = 'DELETION'; deletions.push(oldFiber) }\<close>;
  \<open>push\<close> throws while \<open>deletions\<close> is \<open>null\<close>.
\<close>

definition mark_deletion :: "nat option \<Rightarrow> bool \<Rightarrow> dstate \<Rightarrow> error + dstate" where
  "mark_deletion oldFiber same st =
     (case oldFiber of
        Some old \<Rightarrow>
          (if \<not> same then
             (case deletions st of
                None \<Rightarrow> Inl TypeError
              | Some ds \<Rightarrow>
                  Inr ((upd_dfiber old (\<lambda>f. f\<lparr>f_effectTag := Some DELETION\<rparr>) st)
                         \<lparr>deletions := Some (ds @ [old])\<rparr>))
           else Inr st)
      | None \<Rightarrow> Inr st)"

text \<open>
  \<open>if (index === 0) wipFiber.child = newFiber; else prevSibling.sibling = newFiber\<close>;
  writing \<open>sibling\<close> of a \<open>null\<close> \<open>prevSibling\<close> throws.
\<close>

definition link_newFiber ::
  "nat \<Rightarrow> nat \<Rightarrow> nat option \<Rightarrow> nat option \<Rightarrow> dstate \<Rightarrow> error + dstate" where
  "link_newFiber w index prevSibling newFiber st =
     (if index = 0 then Inr (upd_dfiber w (\<lambda>f. f\<lparr>f_child := newFiber\<rparr>) st)
      else (case prevSibling of
              None \<Rightarrow> Inl TypeError
            | Some ps \<Rightarrow> Inr (upd_dfiber ps (\<lambda>f. f\<lparr>f_sibling := newFiber\<rparr>) st)))"

text \<open>
  The loop \<open>while (index < elements.length || oldFiber != null)\<close>.  The arguments are
  \<open>wipFiber\<close>, the elements from \<open>index\<close> on, \<open>index\<close>, \<open>oldFiber\<close> and \<open>prevSibling\<close>.
\<close>

fun reconcile_loop ::
  "nat \<Rightarrow> nat \<Rightarrow> element list \<Rightarrow> nat \<Rightarrow> nat option \<Rightarrow> nat option \<Rightarrow> dstate \<Rightarrow> error + dstate" where
  "reconcile_loop 0 w els index oldFiber prevSibling st = Inl OutOfFuel"
| "reconcile_loop (Suc n) w els index oldFiber prevSibling st =
     (if els = [] \<and> oldFiber = None then Inr st
      else
        (let element = (case els of [] \<Rightarrow> None | e # es \<Rightarrow> Some e);
             same = sameType oldFiber element st;
             (newFiber, st1) = make_newFiber w oldFiber element st
         in
           case mark_deletion oldFiber same st1 of
             Inl e \<Rightarrow> Inl e
           | Inr st2 \<Rightarrow>
               (let oldFiber' = (case oldFiber of
                                   Some old \<Rightarrow> f_sibling (dheap st2 old)
                                 | None \<Rightarrow> None)
                in
                  case link_newFiber w index prevSibling newFiber st2 of
                    Inl e \<Rightarrow> Inl e
                  | Inr st3 \<Rightarrow> reconcile_loop n w (tl els) (Suc index) oldFiber' newFiber st3)))"

text \<open>\<open>let oldFiber = wipFiber.alternate && wipFiber.alternate.child\<close>, then the loop.\<close>

definition reconcileChildren :: "nat \<Rightarrow> nat \<Rightarrow> element list \<Rightarrow> dstate \<Rightarrow> error + dstate" where
  "reconcileChildren fuel w elements st =
     reconcile_loop fuel w elements 0
       (case f_alternate (dheap st w) of None \<Rightarrow> None | Some alt \<Rightarrow> f_child (dheap st alt))
       None st"

text \<open>
  The search of \<open>performUnitOfWork\<close> for the next unit when the fiber has no child:
  the first sibling on the way up the \<open>parent\<close> links.
\<close>

fun next_sibling_up :: "nat \<Rightarrow> (nat \<Rightarrow> dfiber) \<Rightarrow> nat option \<Rightarrow> error + nat option" where
  "next_sibling_up 0 h nf = Inl OutOfFuel"
| "next_sibling_up (Suc n) h None = Inr None"
| "next_sibling_up (Suc n) h (Some f) =
     (case f_sibling (h f) of
        Some s \<Rightarrow> Inr (Some s)
      | None \<Rightarrow> next_sibling_up n h (f_parent (h f)))"

text \<open>\<open>performUnitOfWork(fiber)\<close>: the next unit of work and the state.\<close>

definition performUnitOfWork :: "nat \<Rightarrow> nat \<Rightarrow> dstate \<Rightarrow> error + nat option \<times> dstate" where
  "performUnitOfWork fuel fiber st =
     (let st1 = (case f_dom (dheap st fiber) of
                   Some d \<Rightarrow> st
                 | None \<Rightarrow>
                     (let (el, s) = createDom (dheap st fiber) st
                      in upd_dfiber fiber (\<lambda>f. f\<lparr>f_dom := Some el\<rparr>) s))
      in case reconcileChildren fuel fiber (p_children (f_props (dheap st1 fiber))) st1 of
           Inl e \<Rightarrow> Inl e
         | Inr st2 \<Rightarrow>
             (case f_child (dheap st2 fiber) of
                Some c \<Rightarrow> Inr (Some c, st2)
              | None \<Rightarrow>
                  (case next_sibling_up fuel (dheap st2) (Some fiber) of
                     Inl e \<Rightarrow> Inl e
                   | Inr nx \<Rightarrow> Inr (nx, st2))))"

text \<open>
  The effect branch of \<open>commitWork(fiber)\<close>.  It reads \<open>fiber.parent.dom\<close> first,
  which throws when the fiber has no parent; a call on a \<open>null\<close> parent host node throws
  too, and so does a call the host refuses.
\<close>

definition commit_effect :: "nat \<Rightarrow> dstate \<Rightarrow> error + dstate" where
  "commit_effect fiber st =
     (let f = dheap st fiber in
      case f_parent f of
        None \<Rightarrow> Inl TypeError
      | Some p \<Rightarrow>
          (let domParent = f_dom (dheap st p) in
           if f_effectTag f = Some PLACEMENT \<and> f_dom f \<noteq> None then
             (case (domParent, f_dom f) of
                (Some pd, Some d) \<Rightarrow> host_appendChild pd d st
              | _ \<Rightarrow> Inl TypeError)
           else if f_effectTag f = Some DELETION then
             (case f_dom f of
                Some d \<Rightarrow>
                  (case domParent of
                     Some pd \<Rightarrow> host_removeChild pd d st
                   | None \<Rightarrow> Inl TypeError)
              | None \<Rightarrow> Inr st)
           else if f_effectTag f = Some UPDATE \<and> f_dom f \<noteq> None then
             (case (f_alternate f, f_dom f) of
                (Some alt, Some d) \<Rightarrow>
                  Inr (st\<lparr>dlog := dlog st
                            @ updateDom d (p_attrs (f_props (dheap st alt)))
                                (p_attrs (f_props f))\<rparr>)
              | _ \<Rightarrow> Inl TypeError)
           else Inr st))"

text \<open>
  \<open>commitWork(fiber)\<close>: nothing for \<open>null\<close>; else the effect of the fiber, then its
  child, then its sibling.
\<close>

fun commitWork :: "nat \<Rightarrow> nat option \<Rightarrow> dstate \<Rightarrow> error + dstate" where
  "commitWork 0 fo st = Inl OutOfFuel"
| "commitWork (Suc n) None st = Inr st"
| "commitWork (Suc n) (Some fiber) st =
     (case commit_effect fiber st of
        Inl e \<Rightarrow> Inl e
      | Inr st1 \<Rightarrow>
          (case commitWork n (f_child (dheap st fiber)) st1 of
             Inl e \<Rightarrow> Inl e
           | Inr st2 \<Rightarrow> commitWork n (f_sibling (dheap st fiber)) st2))"

text \<open>\<open>deletions.forEach(commitWork)\<close>.\<close>

fun commit_deletions :: "nat \<Rightarrow> nat list \<Rightarrow> dstate \<Rightarrow> error + dstate" where
  "commit_deletions fuel [] st = Inr st"
| "commit_deletions fuel (d # ds) st =
     (case commitWork fuel (Some d) st of
        Inl e \<Rightarrow> Inl e
      | Inr st1 \<Rightarrow> commit_deletions fuel ds st1)"

text \<open>\<open>commitRoot()\<close> of this engine.\<close>

definition dcommitRoot :: "nat \<Rightarrow> dstate \<Rightarrow> error + dstate" where
  "dcommitRoot fuel st =
     (case deletions st of
        None \<Rightarrow> Inl TypeError
      | Some ds \<Rightarrow>
          (case commit_deletions fuel ds st of
             Inl e \<Rightarrow> Inl e
           | Inr st1 \<Rightarrow>
               (case wipRoot st1 of
                  None \<Rightarrow> Inl TypeError
                | Some w \<Rightarrow>
                    (case commitWork fuel (f_child (dheap st1 w)) st1 of
                       Inl e \<Rightarrow> Inl e
                     | Inr st2 \<Rightarrow> Inr (st2\<lparr>currentRoot := wipRoot st2, wipRoot := None\<rparr>)))))"

text \<open>\<open>render(element, container)\<close> of this engine.\<close>

definition drender :: "element \<Rightarrow> nat \<Rightarrow> dstate \<Rightarrow> dstate" where
  "drender el container st =
     (let (w, st1) = alloc_dfiber
            \<lparr>f_type = None, f_props = Props [] [el], f_dom = Some container,
             f_parent = None, f_child = None, f_sibling = None,
             f_alternate = currentRoot st, f_effectTag = None\<rparr> st
      in st1\<lparr>wipRoot := Some w, deletions := Some [], nextUnitOfWork := Some w\<rparr>)"

text \<open>
  The \<open>while\<close> loop of \<open>workLoop(deadline)\<close>.  The deadline is the sequence of the
  readings of \<open>deadline.timeRemaining()\<close>; \<open>k\<close> counts the readings taken.
\<close>

fun work_units :: "nat \<Rightarrow> (nat \<Rightarrow> int) \<Rightarrow> nat \<Rightarrow> dstate \<Rightarrow> error + dstate" where
  "work_units 0 deadline k st = Inl OutOfFuel"
| "work_units (Suc n) deadline k st =
     (case nextUnitOfWork st of
        None \<Rightarrow> Inr st
      | Some u \<Rightarrow>
          (case performUnitOfWork n u st of
             Inl e \<Rightarrow> Inl e
           | Inr (nx, st1) \<Rightarrow>
               (let st2 = st1\<lparr>nextUnitOfWork := nx\<rparr> in
                if deadline k < 1 then Inr st2
                else work_units n deadline (Suc k) st2)))"

text \<open>
  \<open>workLoop(deadline)\<close>: the units of work of this time slice, then the commit when no
  unit is left and a work-in-progress root exists.  (It ends by asking the host to call
  it again when idle.)
\<close>

definition workLoop :: "nat \<Rightarrow> (nat \<Rightarrow> int) \<Rightarrow> dstate \<Rightarrow> error + dstate" where
  "workLoop fuel deadline st =
     (case work_units fuel deadline 0 st of
        Inl e \<Rightarrow> Inl e
      | Inr st1 \<Rightarrow>
          if nextUnitOfWork st1 = None \<and> wipRoot st1 \<noteq> None then dcommitRoot fuel st1
          else Inr st1)"

text \<open>The module state before the first \<open>render\<close>.\<close>

definition dinit :: dstate where
  "dinit =
     \<lparr>dheap = (\<lambda>a. \<lparr>f_type = None, f_props = Props [] [], f_dom = None, f_parent = None,
                    f_child = None, f_sibling = None, f_alternate = None,
                    f_effectTag = None\<rparr>),
      dnext = 0, nextUnitOfWork = None, currentRoot = None, wipRoot = None,
      deletions = None, dlog = [], dnext_dom = 1,
      dparent = (\<lambda>d. None), dtext = (\<lambda>d. False)\<rparr>"

section \<open>Notions used to state the properties\<close>

text \<open>
  \<open>rpath fs x ns\<close>: starting at the reference \<open>x\<close>, the \<open>return\<close> links of the store
  \<open>fs\<close> pass through exactly the work nodes \<open>ns\<close>, in order, and end at \<open>null\<close>.
\<close>

primrec rpath :: "(nat \<Rightarrow> fiber) \<Rightarrow> nat option \<Rightarrow> nat list \<Rightarrow> bool" where
  "rpath fs x [] = (x = None)"
| "rpath fs x (n # ns) = (x = Some n \<and> rpath fs (return (fs n)) ns)"

text \<open>
  The listener a work node contributes for an event name: the truthy property of that
  name in the memoized props of a host component that has a \<open>stateNode\<close>.
\<close>

definition listener_at :: "(nat \<Rightarrow> fiber) \<Rightarrow> string \<Rightarrow> nat \<Rightarrow> jsval list" where
  "listener_at fs name n =
     (if tag (fs n) = Some HostComponent \<and> stateNode (fs n) \<noteq> NoNode then
        (case get_prop (memoizedProps (fs n)) name of
           Inr l \<Rightarrow> (if truthy l then [l] else [])
         | Inl e \<Rightarrow> [])
      else [])"

text \<open>A host component that has a \<open>stateNode\<close> has memoized props that can be read.\<close>

definition props_readable :: "(nat \<Rightarrow> fiber) \<Rightarrow> nat \<Rightarrow> bool" where
  "props_readable fs n =
     (if tag (fs n) = Some HostComponent \<and> stateNode (fs n) \<noteq> NoNode
      then memoizedProps (fs n) \<noteq> JNull \<and> memoizedProps (fs n) \<noteq> JUndefined else True)"

text \<open>
  \<open>qpath us p u xs\<close>: from the update entry \<open>u\<close> the \<open>next\<close> links pass through the
  entries \<open>xs\<close> and reach \<open>p\<close> for the first time at the last of them.  A pending queue
  is circular with the entries \<open>xs\<close>, oldest first, when \<open>pending\<close> is the last of them
  and \<open>pending.next\<close> is the first.
\<close>

fun qpath :: "(nat \<Rightarrow> update) \<Rightarrow> nat \<Rightarrow> nat \<Rightarrow> nat list \<Rightarrow> bool" where
  "qpath us p u [] = False"
| "qpath us p u [x] = (u = x \<and> x = p)"
| "qpath us p u (x # y # r) =
     (u = x \<and> x \<noteq> p \<and> u_next (us x) = Some y \<and> qpath us p y (y # r))"

definition circular_queue :: "(nat \<Rightarrow> update) \<Rightarrow> nat \<Rightarrow> nat list \<Rightarrow> bool" where
  "circular_queue us p xs = (\<exists>first. u_next (us p) = Some first \<and> qpath us p first xs)"

text \<open>
  The shallow merge of a list of payloads into a state, in list order; each merge makes
  a new object, whose identity is the next of the counter.
\<close>

fun merge_all :: "nat \<Rightarrow> jsval \<Rightarrow> jsval list \<Rightarrow> jsval" where
  "merge_all ob s [] = s"
| "merge_all ob s (p # ps) = merge_all (Suc ob) (JObj ob (object_spread s p)) ps"

text \<open>
  \<open>linked fs ns\<close>: each work node of \<open>ns\<close> is the \<open>child\<close> of the one before it, which
  is its \<open>return\<close>.
\<close>

fun linked :: "(nat \<Rightarrow> fiber) \<Rightarrow> nat list \<Rightarrow> bool" where
  "linked fs (p # c # r) = (child (fs p) = Some c \<and> return (fs c) = Some p \<and> linked fs (c # r))"
| "linked fs ns = True"

text \<open>The tree links of a work node.\<close>

definition links :: "fiber \<Rightarrow> nat option \<times> nat option \<times> nat option" where
  "links f = (return f, child f, sibling f)"

text \<open>
  \<open>spine st path\<close>: the work nodes of \<open>path\<close>, from a root down, are the nodes the
  render loop has begun and not completed, linked parent to child and without siblings;
  the last of them is \<open>workInProgress\<close>, which has no child yet.
\<close>

definition spine :: "rstate \<Rightarrow> nat list \<Rightarrow> bool" where
  "spine st path =
     (path \<noteq> [] \<and> distinct path
      \<and> list_all (\<lambda>n. n < next_fiber st \<and> sibling (fibers st n) = None) path
      \<and> return (fibers st (hd path)) = None
      \<and> linked (fibers st) path
      \<and> child (fibers st (last path)) = None
      \<and> workInProgress st = Some (last path))"


section \<open>Example inputs\<close>

text \<open>An environment without components.\<close>

definition no_components :: env where
  "no_components =
     \<lparr>is_class = (\<lambda>f. False), fn_call = (\<lambda>f p. JNull), cls_new = (\<lambda>c p. JNull),
      cls_render = (\<lambda>c p s. JNull)\<rparr>"

text \<open>The description \<open><div>hello</div>\<close>, as \<open>react.js\<close> builds it.\<close>

definition hello_element :: jsval where
  "hello_element =
     JObj 10 [(''type'', JStr ''div''), (''key'', JNull), (''ref'', JNull),
              (''props'', JObj 11 [(''children'', JStr ''hello'')])]"




text \<open>
  The class component of \<open>index.js\<close>: it renders a \<open>div\<close> with an \<open>onClick\<close> handler
  (function \<open>1\<close>) around an \<open>h2\<close> with an \<open>onClick\<close> handler (function \<open>2\<close>).  The class
  is function \<open>7\<close>.
\<close>

definition h2_element :: jsval where
  "h2_element =
     JObj 20 [(''type'', JStr ''h2''), (''key'', JNull), (''ref'', JNull),
              (''props'', JObj 21 [(''onClick'', JFun 2), (''children'', JStr ''h2 text'')])]"

definition div_element :: jsval where
  "div_element =
     JObj 22 [(''type'', JStr ''div''), (''key'', JNull), (''ref'', JNull),
              (''props'', JObj 23 [(''style'', JObj 24 [(''color'', JStr ''blue'')]),
                                   (''onClick'', JFun 1), (''children'', h2_element)])]"

definition app_element :: jsval where
  "app_element =
     JObj 25 [(''type'', JFun 7), (''key'', JNull), (''ref'', JNull), (''props'', JObj 26 [])]"

definition app_env :: env where
  "app_env =
     \<lparr>is_class = (\<lambda>f. f = 7), fn_call = (\<lambda>f p. JNull), cls_new = (\<lambda>c p. JUndefined),
      cls_render = (\<lambda>c p s. div_element)\<rparr>"

text \<open>The state after the module has rendered and committed \<open><AppClassComponent />\<close>.\<close>

definition app_state :: rstate where
  "app_state =
     (case render app_env 9 (init_state (JObj 27 [(''children'', app_element)])) of
        Inr st \<Rightarrow> st
      | Inl e \<Rightarrow> empty_state)"

text \<open>A click on the \<open>h2\<close> host node (host node \<open>1\<close>).\<close>

definition click_on_h2 :: native_event where
  "click_on_h2 = \<lparr>target = 1, etype = ''click'', own_fields = [(''isTrusted'', JBool True)]\<rparr>"

text \<open>
  A work node of a class component (address \<open>1\<close>, instance \<open>0\<close> with state \<open>{a: 0}\<close>) whose
  current twin (address \<open>0\<close>) has a pending queue of two updates: entry \<open>1\<close> with payload
  \<open>{a: 1}\<close> was queued first, entry \<open>2\<close> with payload \<open>{b: 2}\<close> last; \<open>pending\<close> is entry
  \<open>2\<close>, and \<open>pending.next\<close> is entry \<open>1\<close>.
\<close>

definition queue_state :: rstate where
  "queue_state =
     empty_state\<lparr>fibers := (fibers empty_state)
                    (0 := (FiberNode (Some ClassComponent) (JObj 30 []) JNull 0)
                            \<lparr>ftype := JFun 7, stateNode := Instance 0, alternate := Some 1\<rparr>,
                     1 := (FiberNode (Some ClassComponent) (JObj 30 []) JNull 0)
                            \<lparr>ftype := JFun 7, stateNode := Instance 0, alternate := Some 0\<rparr>),
                 next_fiber := 2,
                 queues := (queues empty_state)(0 := Some 2), next_queue := 1,
                 updates := (updates empty_state)
                    (1 := \<lparr>u_payload = JObj 31 [(''a'', JNum 1)], u_next = Some 2\<rparr>,
                     2 := \<lparr>u_payload = JObj 32 [(''b'', JNum 2)], u_next = Some 1\<rparr>),
                 instances := (instances empty_state)
                    (0 := \<lparr>i_class = 7, i_props = JObj 30 [],
                            i_state = JObj 33 [(''a'', JNum 0)], i_reactFiber = Some 0\<rparr>),
                 next_instance := 1, next_obj := 40\<rparr>"

text \<open>
  A \<open>div\<close> (address \<open>0\<close>) with two children: a function component that has no child
  (address \<open>1\<close>), then a \<open>span\<close> with host node \<open>7\<close> (address \<open>2\<close>).
\<close>

definition childless_component_tree :: "nat \<Rightarrow> fiber" where
  "childless_component_tree =
     (\<lambda>a. FiberNode None JNull JNull 0)
       (0 := (FiberNode (Some HostComponent) JNull JNull 0)
               \<lparr>ftype := JStr ''div'', child := Some 1\<rparr>,
        1 := (FiberNode (Some FunctionComponent) JNull JNull 1)
               \<lparr>ftype := JFun 0, return := Some 0, sibling := Some 2\<rparr>,
        2 := (FiberNode (Some HostComponent) JNull JNull 2)
               \<lparr>ftype := JStr ''span'', return := Some 0, stateNode := DomNode 7\<rparr>)"

text \<open>Descriptions for the engine with effect tags: a \<open>div\<close> with the children \<open>a\<close>
  (holding a text) and \<open>b\<close>; the same \<open>div\<close> with the child \<open>a\<close> only; and with no child.\<close>

definition div_a_b :: element where
  "div_a_b =
     Element ''div'' (Props [(''id'', JStr ''foo'')]
       [Element ''a'' (Props [] [Element ''TEXT_ELEMENT'' (Props [(''nodeValue'', JStr ''bar'')] [])]),
        Element ''b'' (Props [] [])])"

definition div_a :: element where
  "div_a =
     Element ''div'' (Props [(''id'', JStr ''foo'')]
       [Element ''a'' (Props [] [Element ''TEXT_ELEMENT'' (Props [(''nodeValue'', JStr ''bar'')] [])])])"

definition div_empty :: element where
  "div_empty = Element ''div'' (Props [(''id'', JStr ''foo'')] [])"

text \<open>The same \<open>div\<close> with the child \<open>b\<close> only.\<close>

definition div_b :: element where
  "div_b = Element ''div'' (Props [(''id'', JStr ''foo'')] [Element ''b'' (Props [] [])])"

text \<open>
  A \<open>div\<close> with two lists, \<open><div><ul><a/><b/></ul><ol><c/></ol></div>\<close>, and the same
  with the first item of each list replaced by an item of another type,
  \<open><div><ul><i/><b/></ul><ol><u/></ol></div>\<close>.
\<close>

definition two_lists :: element where
  "two_lists =
     Element ''div'' (Props []
       [Element ''ul'' (Props [] [Element ''a'' (Props [] []), Element ''b'' (Props [] [])]),
        Element ''ol'' (Props [] [Element ''c'' (Props [] [])])])"

definition two_lists_changed :: element where
  "two_lists_changed =
     Element ''div'' (Props []
       [Element ''ul'' (Props [] [Element ''i'' (Props [] []), Element ''b'' (Props [] [])]),
        Element ''ol'' (Props [] [Element ''u'' (Props [] [])])])"

text \<open>A deadline that never asks to yield.\<close>

definition no_yield :: "nat \<Rightarrow> int" where
  "no_yield k = 10"

text \<open>The module state after \<open>div_a_b\<close> has been rendered into container \<open>0\<close> and committed.\<close>

definition rendered_a_b :: dstate where
  "rendered_a_b =
     (case workLoop 20 no_yield (drender div_a_b 0 dinit) of Inr st \<Rightarrow> st | Inl e \<Rightarrow> dinit)"

text \<open>The module state after \<open>two_lists\<close> has been rendered into container \<open>0\<close> and committed.\<close>

definition rendered_lists :: dstate where
  "rendered_lists =
     (case workLoop 30 no_yield (drender two_lists 0 dinit) of Inr st \<Rightarrow> st | Inl e \<Rightarrow> dinit)"

text \<open>
  A parent fiber (address \<open>0\<close>) whose previous generation (address \<open>1\<close>) has the two
  children \<open>2\<close> and \<open>3\<close>.
\<close>

definition two_old_children :: dstate where
  "two_old_children =
     dinit\<lparr>dheap := (dheap dinit)
              (0 := (dheap dinit 0)\<lparr>f_type := Some ''div'', f_dom := Some 1, f_alternate := Some 1\<rparr>,
               1 := (dheap dinit 1)\<lparr>f_type := Some ''div'', f_dom := Some 1, f_child := Some 2\<rparr>,
               2 := (dheap dinit 2)\<lparr>f_type := Some ''a'', f_dom := Some 2, f_parent := Some 1,
                                     f_sibling := Some 3\<rparr>,
               3 := (dheap dinit 3)\<lparr>f_type := Some ''b'', f_dom := Some 3, f_parent := Some 1\<rparr>),
           dnext := 4, deletions := Some []\<rparr>"

text \<open>The log of host calls of a result.\<close>

definition log_of :: "error + dstate \<Rightarrow> error + host_call list" where
  "log_of r = (case r of Inl e \<Rightarrow> Inl e | Inr st \<Rightarrow> Inr (dlog st))"

section \<open>Notions for the reconciliation of children\<close>

text \<open>
  \<open>sib_chain h x os\<close>: from the reference \<open>x\<close> the \<open>sibling\<close> links pass through exactly
  the fibers \<open>os\<close> and end at \<open>null\<close>: \<open>os\<close> is the old child chain.
\<close>

primrec sib_chain :: "(nat \<Rightarrow> dfiber) \<Rightarrow> nat option \<Rightarrow> nat list \<Rightarrow> bool" where
  "sib_chain h x [] = (x = None)"
| "sib_chain h x (old # os) = (x = Some old \<and> sib_chain h (f_sibling (h old)) os)"

text \<open>
  What the reconciliation of the old chain \<open>olds\<close> with the descriptions \<open>els\<close>, position
  by position, is to produce.  For a description, the new fiber: an update that carries
  the host node of the old fiber at its position when that fiber has the same type, a
  placement otherwise.  The new fibers take consecutive addresses from \<open>a\<close> on and each
  is the sibling of the one before it.  The old fibers without a description of the
  same type at their position are the ones to delete.
\<close>

definition fiber_for :: "(nat \<Rightarrow> dfiber) \<Rightarrow> nat \<Rightarrow> nat option \<Rightarrow> element \<Rightarrow> nat option \<Rightarrow> dfiber" where
  "fiber_for h w oldFiber e sib =
     (if (case oldFiber of Some old \<Rightarrow> Some (el_type e) = f_type (h old) | None \<Rightarrow> False) then
        \<lparr>f_type = Some (el_type e), f_props = el_props e,
         f_dom = (case oldFiber of Some old \<Rightarrow> f_dom (h old) | None \<Rightarrow> None),
         f_parent = Some w, f_child = None, f_sibling = sib, f_alternate = oldFiber,
         f_effectTag = Some UPDATE\<rparr>
      else
        \<lparr>f_type = Some (el_type e), f_props = el_props e, f_dom = None,
         f_parent = Some w, f_child = None, f_sibling = sib, f_alternate = None,
         f_effectTag = Some PLACEMENT\<rparr>)"

fun new_fibers :: "(nat \<Rightarrow> dfiber) \<Rightarrow> nat \<Rightarrow> nat \<Rightarrow> nat list \<Rightarrow> element list \<Rightarrow> dfiber list" where
  "new_fibers h w a olds [] = []"
| "new_fibers h w a olds (e # es) =
     fiber_for h w (case olds of [] \<Rightarrow> None | old # os \<Rightarrow> Some old) e
       (if es = [] then None else Some (Suc a))
     # new_fibers h w (Suc a) (tl olds) es"

fun unmatched :: "(nat \<Rightarrow> dfiber) \<Rightarrow> nat list \<Rightarrow> element list \<Rightarrow> nat list" where
  "unmatched h [] els = []"
| "unmatched h (old # os) [] = old # unmatched h os []"
| "unmatched h (old # os) (e # es) =
     (if Some (el_type e) = f_type (h old) then [] else [old]) @ unmatched h os es"

text \<open>The fields of a fiber that the reconciliation of its parent never writes.\<close>

definition core :: "dfiber \<Rightarrow> string option \<times> props \<times> nat option \<times> nat option \<times> nat option" where
  "core f = (f_type f, f_props f, f_dom f, f_parent f, f_alternate f)"

section \<open>Reading and ordering keys\<close>

text \<open>A key that does not start with a digit is no array index.\<close>

lemma array_index_no_digit: "digit_value (hd k) = None \<Longrightarrow> array_index k = None"
  by (cases k) (simp_all add: array_index_def)

lemma goes_before_no_digit: "digit_value (hd k) = None \<Longrightarrow> \<not> goes_before k k'"
  by (simp add: goes_before_def array_index_no_digit)

text \<open>What the evaluation of reads and assignments on concrete objects unfolds.\<close>

lemmas key_defs =
  obj_read_def inherited_def object_prototype_def has_property_def goes_before_no_digit
  digit_value_def

section \<open>Properties of the property diff\<close>


lemma payload_entries_append:
  "even (length xs) \<Longrightarrow> payload_entries (xs @ ys) = payload_entries xs @ payload_entries ys"
  by (induction xs rule: payload_entries.induct) simp_all

lemma clear_styles_obj:
  "\<exists>qs. clear_styles es (JObj i ps) = Inr (JObj i qs)"
  by (induction es arbitrary: ps) auto

lemma object_entries_total:
  "v \<noteq> JNull \<Longrightarrow> v \<noteq> JUndefined \<Longrightarrow> \<exists>es. object_entries v = Inr es"
  by (cases v) auto

lemma get_prop_total:
  "v \<noteq> JNull \<Longrightarrow> v \<noteq> JUndefined \<Longrightarrow> \<exists>x. get_prop v k = Inr x"
  by (cases v) auto

lemma truthy_not_null: "truthy v \<Longrightarrow> v \<noteq> JNull \<and> v \<noteq> JUndefined"
  by (cases v) auto

lemma style_gone_obj:
  "v \<noteq> JNull \<Longrightarrow> v \<noteq> JUndefined \<Longrightarrow> \<exists>qs. style_gone v es (JObj i ps) = Inr (JObj i qs)"
proof (induction es arbitrary: ps)
  case Nil then show ?case by simp
next
  case (Cons a es)
  obtain sk sv where a: "a = (sk, sv)" by (cases a)
  obtain x where x: "get_prop v sk = Inr x" using get_prop_total[OF Cons.prems] by blast
  show ?case using Cons.IH[OF Cons.prems] x by (simp add: a)
qed

lemma style_changed_obj:
  "l \<noteq> JNull \<Longrightarrow> l \<noteq> JUndefined \<Longrightarrow> \<exists>qs. style_changed l es (JObj i ps) = Inr (JObj i qs)"
proof (induction es arbitrary: ps)
  case Nil then show ?case by simp
next
  case (Cons a es)
  obtain sk sv where a: "a = (sk, sv)" by (cases a)
  obtain x where x: "get_prop l sk = Inr x" using get_prop_total[OF Cons.prems] by blast
  show ?case using Cons.IH[OF Cons.prems] x by (simp add: a)
qed

lemma diff_old_total:
  assumes "good_style es"
  shows "\<exists>ext qs. diff_old (JObj j nps) es (pl, JObj i ps) = Inr (pl @ ext, JObj i qs) \<and> even (length ext)"
  using assms
proof (induction es arbitrary: pl ps)
  case Nil
  then show ?case by simp
next
  case (Cons kv es)
  obtain k v where kv: "kv = (k, v)" by (cases kv)
  have g: "good_style es" using Cons.prems by (auto simp: good_style_def)
  show ?case
  proof (cases "truthy (obj_read nps k)")
    case True
    then show ?thesis using Cons.IH[OF g, of pl ps] by (simp add: kv)
  next
    case False
    note nt = this
    show ?thesis
    proof (cases "k = ''style''")
      case True
      then have "v \<noteq> JNull" "v \<noteq> JUndefined" using Cons.prems by (auto simp: good_style_def kv)
      then obtain ses where ses: "object_entries v = Inr ses" by (cases v) auto
      obtain qs where qs: "clear_styles ses (JObj i ps) = Inr (JObj i qs)"
        using clear_styles_obj by blast
      show ?thesis using Cons.IH[OF g, of pl qs] nt True ses qs by (simp add: kv)
    next
      case False
      show ?thesis
      proof (cases "startsWith_on k \<or> k = ''children''")
        case True
        then show ?thesis using Cons.IH[OF g, of pl ps] nt False by (simp add: kv)
      next
        case False
        from Cons.IH[OF g, of "pl @ [JStr k, JNull]" ps]
        obtain ext qs where "diff_old (JObj j nps) es (pl @ [JStr k, JNull], JObj i ps) = Inr ((pl @ [JStr k, JNull]) @ ext, JObj i qs)" "even (length ext)"
          by blast
        then show ?thesis using nt False \<open>k \<noteq> ''style''\<close>
          by (simp add: kv) 
      qed
    qed
  qed
qed

lemma diff_old_ext:
  "diff_old np es (pl, su) = Inr (pl', su') \<Longrightarrow> \<exists>ext. pl' = pl @ ext \<and> even (length ext)"
proof (induction es arbitrary: pl su)
  case Nil
  then show ?case by simp
next
  case (Cons kv es)
  obtain k v where kv: "kv = (k, v)" by (cases kv)
  from Cons.prems obtain pl1 su1 where
    r: "diff_old np es (pl1, su1) = Inr (pl', su')" and p: "pl1 = pl \<or> pl1 = pl @ [JStr k, JNull]"
    by (auto simp: kv split: sum.splits if_splits)
  from Cons.IH[OF r] obtain ext where "pl' = pl1 @ ext" "even (length ext)" by blast
  with p show ?case by auto
qed

lemma diff_old_clears:
  assumes "(k, v) \<in> set es" "obj_read nps k = JUndefined" "k \<noteq> ''style''" "k \<noteq> ''children''"
    "\<not> startsWith_on k" "even (length pl)"
    "diff_old (JObj j nps) es (pl, su) = Inr (pl', su')"
  shows "(JStr k, JNull) \<in> set (payload_entries pl')"
  using assms(1,6,7)
proof (induction es arbitrary: pl su)
  case Nil
  then show ?case by simp
next
  case (Cons a es)
  obtain k' v' where a: "a = (k', v')" by (cases a)
  show ?case
  proof (cases "k' = k")
    case True
    have r: "diff_old (JObj j nps) es (pl @ [JStr k, JNull], su) = Inr (pl', su')"
      using Cons.prems(3) assms(2-5) True by (simp add: a)
    from diff_old_ext[OF r] obtain ext where e: "pl' = (pl @ [JStr k, JNull]) @ ext" by blast
    have "payload_entries pl' = payload_entries pl @ payload_entries ([JStr k, JNull] @ ext)"
      unfolding e using payload_entries_append[OF Cons.prems(2)] by simp
    then show ?thesis by simp
  next
    case False
    then have mem: "(k, v) \<in> set es" using Cons.prems(1) by (auto simp: a)
    from Cons.prems(3) obtain pl1 su1 where
      r: "diff_old (JObj j nps) es (pl1, su1) = Inr (pl', su')" and p: "pl1 = pl \<or> pl1 = pl @ [JStr k', JNull]"
      by (auto simp: a split: sum.splits if_splits)
    have "even (length pl1)" using p Cons.prems(2) by auto
    from Cons.IH[OF mem this r] show ?thesis .
  qed
qed

lemma diff_new_total:
  assumes "good_style es" "distinct (map fst es)" "su_ok su es"
  shows "\<exists>ext su'. diff_new (JObj j ops) es (pl, su) = Inr (pl @ ext, su') \<and> even (length ext)
            \<and> su' \<noteq> JNull \<and> su' \<noteq> JUndefined"
  using assms
proof (induction es arbitrary: pl su)
  case Nil
  then show ?case by (auto simp: su_ok_def)
next
  case (Cons kv es)
  obtain k v where kv: "kv = (k, v)" by (cases kv)
  obtain lastProp where lp: "get_prop (JObj j ops) k = Inr lastProp" by simp
  have g: "good_style es" using Cons.prems by (auto simp: good_style_def)
  have d: "distinct (map fst es)" and knot: "k \<notin> fst ` set es" using Cons.prems by (auto simp: kv)
  have ok_mono: "su_ok su es" using Cons.prems(3) by (auto simp: su_ok_def)
  have step: "\<And>pl' s'. su_ok s' es \<Longrightarrow> \<exists>ext su'. diff_new (JObj j ops) es (pl', s') = Inr (pl' @ ext, su') \<and> even (length ext)
            \<and> su' \<noteq> JNull \<and> su' \<noteq> JUndefined"
    using Cons.IH[OF g d] by blast
  show ?case
  proof (cases "strict_eq v lastProp")
    case True
    then show ?thesis using step[OF ok_mono, of pl] lp by (simp add: kv del: get_prop.simps)
  next
    case False
    note ne = this
    show ?thesis
    proof (cases "k = ''style''")
      case True
      note ks = this
      have vn: "v \<noteq> JNull" "v \<noteq> JUndefined" using Cons.prems(1) by (auto simp: good_style_def kv ks)
      have nost: "''style'' \<notin> fst ` set es" using knot ks by simp
      show ?thesis
      proof (cases "truthy lastProp")
        case True
        obtain i ps where su: "su = JObj i ps" using Cons.prems(3) ks by (auto simp: su_ok_def kv)
        have ln: "lastProp \<noteq> JNull" "lastProp \<noteq> JUndefined" using truthy_not_null[OF True] by auto
        obtain les where les: "object_entries lastProp = Inr les" using object_entries_total[OF ln] by blast
        obtain qs where qs: "style_gone v les (JObj i ps) = Inr (JObj i qs)" using style_gone_obj[OF vn] by blast
        obtain ves where ves: "object_entries v = Inr ves" using object_entries_total[OF vn] by blast
        obtain rs where rs: "style_changed lastProp ves (JObj i qs) = Inr (JObj i rs)" using style_changed_obj[OF ln] by blast
        have "su_ok (JObj i rs) es" by (simp add: su_ok_def)
        from step[OF this, of pl] show ?thesis
          using lp ne ks True les qs ves rs su by (simp add: kv del: get_prop.simps)
      next
        case False
        have "su_ok v es" using vn nost by (simp add: su_ok_def)
        from step[OF this, of pl] show ?thesis
          using lp ne ks False by (simp add: kv del: get_prop.simps)
      qed
    next
      case False
      note nks = this
      show ?thesis
      proof (cases "k = ''children''")
        case True
        show ?thesis
        proof (cases "typeof v = TString \<or> typeof v = TNumber")
          case True
          from step[OF ok_mono, of "pl @ [JStr k, v]"]
          obtain ext su' where "diff_new (JObj j ops) es (pl @ [JStr k, v], su) = Inr ((pl @ [JStr k, v]) @ ext, su')"
            "even (length ext)" "su' \<noteq> JNull" "su' \<noteq> JUndefined" by blast
          then show ?thesis using lp ne nks \<open>k = ''children''\<close> True
            by (simp add: kv del: get_prop.simps)
        next
          case False
          then show ?thesis using step[OF ok_mono, of pl] lp ne nks \<open>k = ''children''\<close>
            by (simp add: kv del: get_prop.simps)
        qed
      next
        case False
        show ?thesis
        proof (cases "startsWith_on k")
          case True
          then show ?thesis using step[OF ok_mono, of pl] lp ne nks False
            by (simp add: kv del: get_prop.simps)
        next
          case False
          from step[OF ok_mono, of "pl @ [JStr k, v]"]
          obtain ext su' where "diff_new (JObj j ops) es (pl @ [JStr k, v], su) = Inr ((pl @ [JStr k, v]) @ ext, su')"
            "even (length ext)" "su' \<noteq> JNull" "su' \<noteq> JUndefined" by blast
          then show ?thesis using lp ne nks \<open>k \<noteq> ''children''\<close> False
            by (simp add: kv del: get_prop.simps)
        qed
      qed
    qed
  qed
qed


lemma payload_entries_mem_append:
  "even (length xs) \<Longrightarrow> e \<in> set (payload_entries xs) \<Longrightarrow> e \<in> set (payload_entries (xs @ ys))"
  by (simp add: payload_entries_append)

lemma obj_read_absent: "\<not> has_property nps k \<Longrightarrow> obj_read nps k = JUndefined"
proof -
  assume a: "\<not> has_property nps k"
  then have "map_of nps k = None" by (simp add: has_property_def map_of_eq_None_iff)
  moreover have "map_of object_prototype k = None"
    using a by (simp add: has_property_def map_of_eq_None_iff)
  ultimately show ?thesis by (simp add: obj_read_def inherited_def)
qed

text \<open>
  Claim C5 (as the code has it).  Let \<open>oldProps\<close> and \<open>newProps\<close> be property objects
  whose \<open>style\<close> property, when present, is neither \<open>null\<close> nor \<open>undefined\<close>.  Every key
  of \<open>oldProps\<close> that \<open>newProps\<close> does not have, neither as an own property nor as a
  member inherited from \<open>Object.prototype\<close>, other than \<open>style\<close>, \<open>children\<close> and the keys
  that start with \<open>on\<close>, gets a clearing entry (the key followed by \<open>null\<close>) in the update
  payload \<open>diffProperties\<close> returns; the call returns that payload (it does not throw,
  and the payload is not \<open>null\<close>).  For \<open>{color: 'red', size: 2}\<close> and \<open>{size: 2}\<close> the
  payload is exactly \<open>['color', null]\<close>: a clearing entry for \<open>color\<close> and no entry
  for \<open>size\<close>.  (The keys of an object are distinct.)
\<close>

theorem diffProperties_clears_removed_keys:
  assumes "(k, v) \<in> set ops" and "\<not> has_property nps k"
    and "k \<noteq> ''style''" and "k \<noteq> ''children''" and "\<not> startsWith_on k"
    and "good_style ops" and "good_style nps" and "distinct (map fst nps)"
  shows "(\<exists>payload. diffProperties fresh (JObj i ops) (JObj j nps) = Inr (Some payload)
            \<and> (JStr k, JNull) \<in> set (payload_entries payload))
         \<and> diffProperties fresh (JObj i [(''color'', JStr ''red''), (''size'', JNum 2)])
               (JObj j [(''size'', JNum 2)]) = Inr (Some [JStr ''color'', JNull])"
proof
  have absent: "obj_read nps k = JUndefined" using assms(2) by (rule obj_read_absent)
  obtain ext1 qs where
    o: "diff_old (JObj j nps) ops ([], JObj fresh []) = Inr ([] @ ext1, JObj fresh qs)"
    and e1: "even (length ext1)"
    using diff_old_total[OF assms(6), of j nps "[]" fresh "[]"] by blast
  have o': "diff_old (JObj j nps) ops ([], JObj fresh []) = Inr (ext1, JObj fresh qs)"
    using o by simp
  have m1: "(JStr k, JNull) \<in> set (payload_entries ext1)"
    using diff_old_clears[OF assms(1) absent assms(3,4,5) _ o'] by simp
  have "su_ok (JObj fresh qs) nps" by (simp add: su_ok_def)
  from diff_new_total[OF assms(7,8) this, of i ops ext1]
  obtain ext2 su' where
    n: "diff_new (JObj i ops) nps (ext1, JObj fresh qs) = Inr (ext1 @ ext2, su')"
    and e2: "even (length ext2)" and su: "su' \<noteq> JNull" "su' \<noteq> JUndefined"
    by blast
  obtain ks where ks: "object_entries su' = Inr ks" using object_entries_total[OF su] by blast
  define payload where
    "payload = (if length ks > 0 then (ext1 @ ext2) @ [JStr ''style'', su'] else ext1 @ ext2)"
  have pe: "payload = ext1 @ (if length ks > 0 then ext2 @ [JStr ''style'', su'] else ext2)"
    by (simp add: payload_def)
  have mem: "(JStr k, JNull) \<in> set (payload_entries payload)"
    unfolding pe by (rule payload_entries_mem_append[OF e1 m1])
  then have ne: "length payload > 0" by (cases payload) auto
  have "diffProperties fresh (JObj i ops) (JObj j nps) = Inr (Some payload)"
    using o' n ks ne by (auto simp add: diffProperties_def payload_def simp del: diff_old.simps diff_new.simps split: if_splits)
  with mem show "\<exists>payload. diffProperties fresh (JObj i ops) (JObj j nps) = Inr (Some payload)
            \<and> (JStr k, JNull) \<in> set (payload_entries payload)" by blast
next
  show "diffProperties fresh (JObj i [(''color'', JStr ''red''), (''size'', JNum 2)])
               (JObj j [(''size'', JNum 2)]) = Inr (Some [JStr ''color'', JNull])"
    by (simp add: diffProperties_def startsWith_on_def key_defs)
qed

text \<open>The theorem at the input of the claim's example.\<close>

theorem diffProperties_clears_removed_keys_witness:
  "(\<exists>payload. diffProperties 0 (JObj 1 [(''color'', JStr ''red''), (''size'', JNum 2)])
        (JObj 2 [(''size'', JNum 2)]) = Inr (Some payload)
      \<and> (JStr ''color'', JNull) \<in> set (payload_entries payload))
   \<and> diffProperties 0 (JObj 1 [(''color'', JStr ''red''), (''size'', JNum 2)])
        (JObj 2 [(''size'', JNum 2)]) = Inr (Some [JStr ''color'', JNull])"
  using diffProperties_clears_removed_keys[of "''color''" "JStr ''red''"
      "[(''color'', JStr ''red''), (''size'', JNum 2)]" "[(''size'', JNum 2)]" 0 1 2]
  by (simp add: good_style_def startsWith_on_def key_defs)

text \<open>
  Claim C5 as stated, for all property objects, fails on two inputs.  With the old
  props \<open>{style: null, color: 'red'}\<close> and the new props \<open>{}\<close> the first loop calls
  \<open>Object.entries(null)\<close> and the call throws: no payload is returned.  With the old
  props \<open>{constructor: 'x'}\<close> and the new props \<open>{}\<close> the test \<open>if (newProps[k])\<close> of the
  first loop reads the member \<open>constructor\<close> that \<open>newProps\<close> inherits, which is truthy:
  the key is skipped and the call returns \<open>null\<close>, without a clearing entry.
\<close>

theorem diffProperties_null_style_throws:
  "diffProperties 0 (JObj 1 [(''style'', JNull), (''color'', JStr ''red'')]) (JObj 2 [])
     = Inl TypeError
   \<and> diffProperties 0 (JObj 1 [(''constructor'', JStr ''x'')]) (JObj 2 []) = Inr None"
  by (simp add: diffProperties_def startsWith_on_def key_defs)

text \<open>
  Claim C6.  The claim says that \<open>diffProperties\<close> applied to identical old and new
  property objects yields the empty payload (\<open>null\<close>).  The first loop of
  \<open>diffProperties\<close> skips a key of \<open>oldProps\<close> when \<open>newProps[k]\<close> is truthy, not when
  \<open>newProps\<close> has the key.  For the one object \<open>{tabIndex: 0}\<close> given as both
  arguments the call returns \<open>['tabIndex', null]\<close>: it schedules the clearing of a
  property that has not changed.
\<close>

theorem diffProperties_same_props_not_null:
  "diffProperties 0 (JObj 1 [(''tabIndex'', JNum 0)]) (JObj 1 [(''tabIndex'', JNum 0)])
     = Inr (Some [JStr ''tabIndex'', JNull])"
  by (simp add: diffProperties_def startsWith_on_def key_defs)


section \<open>Properties of the engine of index.js\<close>

text \<open>The definitions a concrete run unfolds.\<close>

lemmas engine_defs =
  render_def init_state_def createHostRootFiber_def createFiber_def empty_state_def
  upd_fiber_def createWorkInProgress_def FiberNode_def Let_def beginWork_def
  resolve_children_def createFiberFromElement_def completeWork_def appendChildren_def
  setInitialProps_def setInitialProp_def commitRoot_def key_defs










lemma merge_loop_qpath:
  assumes "qpath us p u xs" and "length xs \<le> fuel"
  shows "merge_loop fuel us p u s ob =
           Inr (merge_all ob s (map (\<lambda>x. u_payload (us x)) xs), ob + length xs)"
  using assms
proof (induction us p u xs arbitrary: fuel s ob rule: qpath.induct)
  case (1 us p u)
  then show ?case by simp
next
  case (2 us p u x)
  then obtain m where "fuel = Suc m" by (cases fuel) auto
  with 2 show ?case by simp
next
  case (3 us p u x y r)
  then obtain m where m: "fuel = Suc m" "length (y # r) \<le> m" by (cases fuel) auto
  have q: "qpath us p y (y # r)" and n: "u_next (us x) = Some y" and ne: "x \<noteq> p" and ux: "u = x"
    using "3.prems"(1) by auto
  show ?case using "3.IH"[OF q m(2)] n ne ux by (simp add: m Let_def)
qed

lemma truthy_get_prop: "truthy v \<Longrightarrow> \<exists>x. get_prop v k = Inr x"
  by (cases v) auto

lemma createFiberFromElement_total:
  "truthy el \<Longrightarrow> \<exists>c st'. createFiberFromElement en el st = Inr (c, st') \<and> instances st' = instances st"
proof -
  assume t: "truthy el"
  obtain a b c where "get_prop el ''type'' = Inr a" "get_prop el ''props'' = Inr b" "get_prop el ''key'' = Inr c"
    using truthy_get_prop[OF t] by meson
  then show ?thesis
    by (simp add: createFiberFromElement_def createFiber_def upd_fiber_def Let_def split: prod.splits)
qed

text \<open>
  Claim C8.  Let a class component work node be begun on a render that is not its
  first (it has a current twin and its \<open>stateNode\<close> is the instance), and let the pending
  queue of the twin be circular with the entries \<open>xs\<close>, oldest first: \<open>pending\<close> is the
  last entry, \<open>pending.next\<close> the first.  With fuel for \<open>length xs\<close> turns the loop
  returns; it has merged the payloads of all the entries into the state of the instance
  by object spread, in queue order, and stopped on reaching \<open>pending\<close>.  \<open>render()\<close> is
  called on the instance with the merged state, and its result is the child
  description \<open>beginWork\<close> goes on with.
\<close>

theorem beginWork_merges_update_queue:
  assumes "tag (fibers st w) = Some ClassComponent"
    and "stateNode (fibers st w) = Instance i"
    and "queues st (updateQueue (fibers st cur)) = Some pendingState"
    and "circular_queue (updates st) pendingState xs"
    and "length xs \<le> fuel"
    and "merged = merge_all (next_obj st) (i_state (instances st i))
                    (map (\<lambda>x. u_payload (updates st x)) xs)"
  shows "\<exists>st1. resolve_children en fuel (Some cur) w st =
             Inr (Some (cls_render en (i_class (instances st i)) (i_props (instances st i)) merged, st1))
           \<and> i_state (instances st1 i) = merged
           \<and> (\<exists>nxt st'. beginWork en fuel (Some cur) w st = Inr (nxt, st')
                 \<and> i_state (instances st' i) = merged)"
proof -
  obtain first where f: "u_next (updates st pendingState) = Some first"
    and q: "qpath (updates st) pendingState first xs"
    using assms(4) by (auto simp: circular_queue_def)
  have ml: "merge_loop fuel (updates st) pendingState first (i_state (instances st i)) (next_obj st)
         = Inr (merged, next_obj st + length xs)"
    using merge_loop_qpath[OF q assms(5)] assms(6) by simp
  define st1 where "st1 = st\<lparr>instances := (instances st)(i := (instances st i)\<lparr>i_state := merged\<rparr>),
                              next_obj := next_obj st + length xs\<rparr>"
  define nc where "nc = cls_render en (i_class (instances st i)) (i_props (instances st i)) merged"
  have rc: "resolve_children en fuel (Some cur) w st = Inr (Some (nc, st1))"
    using assms(1,2,3) f ml by (simp add: resolve_children_def Let_def st1_def nc_def)
  have s1: "i_state (instances st1 i) = merged" by (simp add: st1_def)
  have "\<exists>nxt st'. beginWork en fuel (Some cur) w st = Inr (nxt, st') \<and> i_state (instances st' i) = merged"
  proof (cases "truthy nc")
    case False
    then show ?thesis using rc s1 by (simp add: beginWork_def upd_fiber_def)
  next
    case True
    obtain c st2 where c: "createFiberFromElement en nc st1 = Inr (c, st2)" "instances st2 = instances st1"
      using createFiberFromElement_total[OF True] by blast
    then show ?thesis using rc s1 True by (simp add: beginWork_def upd_fiber_def Let_def)
  qed
  then show ?thesis using rc s1 unfolding nc_def by blast
qed


text \<open>
  The theorem at a queue of two updates: \<open>{a: 1}\<close> queued first and \<open>{b: 2}\<close> queued
  last are merged into the state \<open>{a: 0}\<close> in that order.
\<close>

theorem beginWork_merges_update_queue_witness:
  "circular_queue (updates queue_state) 2 [1, 2]
   \<and> (\<exists>st1. resolve_children app_env 2 (Some 0) 1 queue_state =
             Inr (Some (cls_render app_env 7 (JObj 30 [])
                          (JObj 41 [(''a'', JNum 1), (''b'', JNum 2)]), st1))
           \<and> i_state (instances st1 0) = JObj 41 [(''a'', JNum 1), (''b'', JNum 2)]
           \<and> (\<exists>nxt st'. beginWork app_env 2 (Some 0) 1 queue_state = Inr (nxt, st')
                 \<and> i_state (instances st' 0) = JObj 41 [(''a'', JNum 1), (''b'', JNum 2)]))"
proof -
  have c: "circular_queue (updates queue_state) 2 [1, 2]"
    by (simp add: circular_queue_def queue_state_def empty_state_def)
  have m: "JObj 41 [(''a'', JNum 1), (''b'', JNum 2)]
             = merge_all (next_obj queue_state) (i_state (instances queue_state 0))
                 (map (\<lambda>x. u_payload (updates queue_state x)) [1, 2])"
    by (simp add: queue_state_def empty_state_def object_spread_def spread_into_def key_defs
        spread_entries_def)
  have "tag (fibers queue_state 1) = Some ClassComponent"
    and "stateNode (fibers queue_state 1) = Instance 0"
    and "queues queue_state (updateQueue (fibers queue_state 0)) = Some 2"
    and "length [1::nat, 2] \<le> 2"
    by (simp_all add: queue_state_def empty_state_def FiberNode_def)
  from beginWork_merges_update_queue[OF this(1,2,3) c this(4) m, of app_env]
  have "\<exists>st1. resolve_children app_env 2 (Some 0) 1 queue_state =
             Inr (Some (cls_render app_env (i_class (instances queue_state 0))
                          (i_props (instances queue_state 0))
                          (JObj 41 [(''a'', JNum 1), (''b'', JNum 2)]), st1))
           \<and> i_state (instances st1 0) = JObj 41 [(''a'', JNum 1), (''b'', JNum 2)]
           \<and> (\<exists>nxt st'. beginWork app_env 2 (Some 0) 1 queue_state = Inr (nxt, st')
                 \<and> i_state (instances st' 0) = JObj 41 [(''a'', JNum 1), (''b'', JNum 2)])" .
  moreover have "i_class (instances queue_state 0) = 7" "i_props (instances queue_state 0) = JObj 30 []"
    by (simp_all add: queue_state_def empty_state_def)
  ultimately show ?thesis using c by simp
qed


lemma accumulate_loop_path:
  assumes "rpath fs cf ns" and "list_all (props_readable fs) ns" and "length ns < fuel"
  shows "accumulate_loop fuel fs name cf ls = Inr (ls @ concat (map (listener_at fs name) ns))"
  using assms
proof (induction ns arbitrary: cf ls fuel)
  case Nil
  then obtain m where "fuel = Suc m" by (cases fuel) auto
  with Nil show ?case by simp
next
  case (Cons n ns)
  from Cons.prems obtain m where m: "fuel = Suc m" "length ns < m" by (cases fuel) auto
  have cf: "cf = Some n" and p: "rpath fs (return (fs n)) ns" using Cons.prems(1) by auto
  have la: "list_all (props_readable fs) ns" and pr: "props_readable fs n"
    using Cons.prems(2) by auto
  note IH = Cons.IH[OF p la m(2)]
  show ?case
  proof (cases "tag (fs n) = Some HostComponent \<and> stateNode (fs n) \<noteq> NoNode")
    case True
    then have "memoizedProps (fs n) \<noteq> JNull" "memoizedProps (fs n) \<noteq> JUndefined"
      using pr by (auto simp: props_readable_def)
    then obtain l where l: "get_prop (memoizedProps (fs n)) name = Inr l"
      using get_prop_total by blast
    show ?thesis using True l IH by (simp add: m cf listener_at_def)
  next
    case False
    then show ?thesis using IH by (auto simp add: m cf listener_at_def)
  qed
qed


text \<open>
  Claim C9.  Let \<open>B\<close> be a host component whose host node is the target of a native
  event, nested in a host component \<open>A\<close>: the \<open>return\<close> links from \<open>B\<close> reach \<open>A\<close> and
  then the root.  Let \<open>B\<close> hold the handler \<open>h2\<close> and \<open>A\<close> the handler \<open>h1\<close> under the
  logical name of the event (\<open>on\<close>, then the native type with its first letter in upper
  case), and let no other work node on the way contribute a listener.  Then
  \<open>dispatchEvent\<close> calls exactly \<open>h2\<close> and then \<open>h1\<close>, each with the synthetic event.
\<close>

theorem dispatchEvent_bubble_order:
  assumes "internalFiber st (target ev) = Some b"
    and "rpath (fibers st) (Some b) (b # mid @ a # up)"
    and "reactEventName (etype ev) = Inr name"
    and "tag (fibers st b) = Some HostComponent" and "stateNode (fibers st b) \<noteq> NoNode"
    and "get_prop (memoizedProps (fibers st b)) name = Inr (JFun h2)"
    and "tag (fibers st a) = Some HostComponent" and "stateNode (fibers st a) \<noteq> NoNode"
    and "get_prop (memoizedProps (fibers st a)) name = Inr (JFun h1)"
    and "list_all (\<lambda>n. props_readable (fibers st) n \<and> listener_at (fibers st) name n = [])
           (mid @ up)"
    and "length (b # mid @ a # up) < fuel"
  shows "dispatchEvent fuel st ev = Inr [(h2, SyntheticEvent ev), (h1, SyntheticEvent ev)]"
proof -
  have rb: "props_readable (fibers st) b" and ra: "props_readable (fibers st) a"
    using assms(6,9) by (auto simp: props_readable_def)
  have lb: "listener_at (fibers st) name b = [JFun h2]"
    using assms(4,5,6) by (simp add: listener_at_def)
  have la: "listener_at (fibers st) name a = [JFun h1]"
    using assms(7,8,9) by (simp add: listener_at_def)
  have quiet: "list_all (props_readable (fibers st)) (mid @ up)"
    and none: "concat (map (listener_at (fibers st) name) mid) = []"
      "concat (map (listener_at (fibers st) name) up) = []"
    using assms(10) by (auto simp: list_all_iff)
  have all: "list_all (props_readable (fibers st)) (b # mid @ a # up)"
    using rb ra quiet by simp
  have "accumulate_loop fuel (fibers st) name (Some b) []
          = Inr ([] @ concat (map (listener_at (fibers st) name) (b # mid @ a # up)))"
    by (rule accumulate_loop_path[OF assms(2) all assms(11)])
  then have "accumulateListeners fuel (fibers st) name (Some b) = Inr [JFun h2, JFun h1]"
    using lb la none by (simp add: accumulateListeners_def)
  then show ?thesis using assms(1,3) by (simp add: dispatchEvent_def)
qed

text \<open>
  The theorem at the tree the module renders: a click on the host node of the \<open>h2\<close>
  calls the handler of the \<open>h2\<close> (function \<open>2\<close>), then that of the \<open>div\<close> (function \<open>1\<close>).
\<close>

lemma app_state_facts:
  "\<exists>S. render app_env 9 (init_state (JObj 27 [(''children'', app_element)])) = Inr S
     \<and> tag (fibers S 4) = Some HostComponent \<and> return (fibers S 4) = Some 3
     \<and> stateNode (fibers S 4) = DomNode 1
     \<and> get_prop (memoizedProps (fibers S 4)) ''onClick'' = Inr (JFun 2)
     \<and> tag (fibers S 3) = Some HostComponent \<and> return (fibers S 3) = Some 2
     \<and> stateNode (fibers S 3) = DomNode 2
     \<and> get_prop (memoizedProps (fibers S 3)) ''onClick'' = Inr (JFun 1)
     \<and> tag (fibers S 2) = Some ClassComponent \<and> return (fibers S 2) = Some 1
     \<and> tag (fibers S 1) = Some HostRoot \<and> return (fibers S 1) = None
     \<and> internalFiber S 1 = Some 4"
  by (simp add: engine_defs app_env_def app_element_def div_element_def h2_element_def
      eval_nat_numeral)

theorem dispatchEvent_bubble_order_witness:
  "rpath (fibers app_state) (Some 4) (4 # [] @ 3 # [2, 1])
   \<and> dispatchEvent 5 app_state click_on_h2
        = Inr [(2, SyntheticEvent click_on_h2), (1, SyntheticEvent click_on_h2)]"
proof -
  from app_state_facts obtain S where
    r: "render app_env 9 (init_state (JObj 27 [(''children'', app_element)])) = Inr S"
    and f4: "tag (fibers S 4) = Some HostComponent" "return (fibers S 4) = Some 3"
      "stateNode (fibers S 4) = DomNode 1"
      "get_prop (memoizedProps (fibers S 4)) ''onClick'' = Inr (JFun 2)"
    and f3: "tag (fibers S 3) = Some HostComponent" "return (fibers S 3) = Some 2"
      "stateNode (fibers S 3) = DomNode 2"
      "get_prop (memoizedProps (fibers S 3)) ''onClick'' = Inr (JFun 1)"
    and f2: "tag (fibers S 2) = Some ClassComponent" "return (fibers S 2) = Some 1"
    and f1: "tag (fibers S 1) = Some HostRoot" "return (fibers S 1) = None"
    and i1: "internalFiber S 1 = Some 4"
    by blast
  have S: "app_state = S" using r by (simp add: app_state_def)
  have i: "internalFiber app_state (target click_on_h2) = Some 4"
    using i1 by (simp add: S click_on_h2_def)
  have p: "rpath (fibers app_state) (Some 4) (4 # [] @ 3 # [2, 1])"
    using f4 f3 f2 f1 by (simp add: S)
  have n: "reactEventName (etype click_on_h2) = Inr ''onClick''"
    by (simp add: reactEventName_def click_on_h2_def toUpperCase_char_def)
  have q: "list_all (\<lambda>n. props_readable (fibers app_state) n
              \<and> listener_at (fibers app_state) ''onClick'' n = []) ([] @ [2, 1])"
    using f2 f1 by (simp add: S props_readable_def listener_at_def)
  have "dispatchEvent 5 app_state click_on_h2
        = Inr [(2, SyntheticEvent click_on_h2), (1, SyntheticEvent click_on_h2)]"
    by (rule dispatchEvent_bubble_order[OF i p n _ _ _ _ _ _ q])
       (use f4 f3 in \<open>simp_all add: S\<close>)
  with p show ?thesis by simp
qed

text \<open>
  No function of the repository gives a work node a sibling (the constructor sets
  \<open>sibling\<close> to \<open>null\<close> and nothing assigns it), so \<open>appendChildren\<close> is only called on
  chains of first children.  On a tree linked by hand its loop would miss host nodes: it
  goes down from a work node that is neither a host component nor a text with
  \<open>childFiber = childFiber.child\<close> and starts the next turn; when that child is \<open>null\<close>
  the loop ends, and a sibling of the work node is not visited.
\<close>

lemma appendChildren_skips_sibling_of_childless_component:
  "appendChildren 10 childless_component_tree 5 0 [] = Inr []
   \<and> tag (childless_component_tree 2) = Some HostComponent
   \<and> stateNode (childless_component_tree 2) = DomNode 7
   \<and> return (childless_component_tree 2) = Some 0
   \<and> child (childless_component_tree 0) = Some 1
   \<and> sibling (childless_component_tree 1) = Some 2"
  by (simp add: appendChildren_def childless_component_tree_def FiberNode_def eval_nat_numeral)

text \<open>
  Claim C4.  The claim says that after a render and commit the finished work tree is
  the new current tree.  \<open>commitRoot\<close> of \<open>index.js\<close> reads
  \<open>finishedWork = root.current.alternate\<close> and then assigns \<open>container.current\<close>, a
  property of the host container, not \<open>root.current\<close>.  After the module has rendered
  and committed \<open><div>hello</div>\<close>, the work-in-progress reference is \<open>null\<close>, but
  \<open>root.current\<close> is still the first root work node (address \<open>0\<close>), whose alternate is the
  finished work (address \<open>1\<close>); the finished work is held by the container only.
\<close>

theorem commitRoot_leaves_root_current:
  "\<exists>st. render no_components 5 (init_state (JObj 12 [(''children'', hello_element)])) = Inr st
      \<and> workInProgress st = None
      \<and> root_current (init_state (JObj 12 [(''children'', hello_element)])) = 0
      \<and> alternate (fibers st 0) = Some 1
      \<and> root_current st = 0
      \<and> container_current st = Some 1"
  by (simp add: engine_defs hello_element_def no_components_def eval_nat_numeral)
section \<open>Properties of the engine with effect tags\<close>

text \<open>The definitions a concrete run of this engine unfolds.\<close>

lemmas didact_defs =
  workLoop_def drender_def dinit_def alloc_dfiber_def upd_dfiber_def performUnitOfWork_def
  createDom_def reconcileChildren_def sameType_def make_newFiber_def
  mark_deletion_def link_newFiber_def dcommitRoot_def commit_effect_def updateDom_def prop_lookup_def
  isProperty_def isEvent_def isNew_def isGone_def type_value_def startsWith_on_def
  eventType_def Let_def no_yield_def host_appendChild_def host_removeChild_def key_defs

text \<open>A commit writes to the host only: the fibers and the module variables stay.\<close>

lemma commit_effect_frame:
  "commit_effect fiber st = Inr st' \<Longrightarrow>
     dheap st' = dheap st \<and> deletions st' = deletions st \<and> wipRoot st' = wipRoot st
     \<and> currentRoot st' = currentRoot st \<and> (\<exists>cs. dlog st' = dlog st @ cs)"
  by (auto simp: commit_effect_def host_appendChild_def host_removeChild_def Let_def
      split: option.splits if_splits)

lemma commitWork_frame:
  "commitWork n fo st = Inr st' \<Longrightarrow>
     dheap st' = dheap st \<and> deletions st' = deletions st \<and> wipRoot st' = wipRoot st
     \<and> currentRoot st' = currentRoot st \<and> (\<exists>cs. dlog st' = dlog st @ cs)"
proof (induction n arbitrary: fo st st')
  case 0
  then show ?case by simp
next
  case (Suc n)
  show ?case
  proof (cases fo)
    case None
    then show ?thesis using Suc.prems by simp
  next
    case (Some fiber)
    from Suc.prems Some obtain s1 s2 where
      own: "commit_effect fiber st = Inr s1"
      and c: "commitWork n (f_child (dheap st fiber)) s1 = Inr s2"
      and s: "commitWork n (f_sibling (dheap st fiber)) s2 = Inr st'"
      by (auto split: sum.splits)
    from Suc.IH[OF c] Suc.IH[OF s] commit_effect_frame[OF own] show ?thesis by auto
  qed
qed

lemma commit_deletions_frame:
  "commit_deletions n ds st = Inr st' \<Longrightarrow>
     dheap st' = dheap st \<and> deletions st' = deletions st \<and> wipRoot st' = wipRoot st
     \<and> currentRoot st' = currentRoot st \<and> (\<exists>cs. dlog st' = dlog st @ cs)"
proof (induction ds arbitrary: st)
  case Nil
  then show ?case by simp
next
  case (Cons d ds)
  from Cons.prems obtain s1 where a: "commitWork n (Some d) st = Inr s1"
    and b: "commit_deletions n ds s1 = Inr st'" by (auto split: sum.splits)
  from commitWork_frame[OF a] Cons.IH[OF b] show ?case by auto
qed

text \<open>
  Claim C3.  The claim says that \<open>commitRoot\<close> applies every queued deletion before any
  placement or update effect, and that a deleted node is detached from its parent's host
  node.  \<open>commitRoot\<close> runs \<open>commitWork\<close> on each queued fiber, and \<open>commitWork\<close> goes on
  with the child and the sibling of the fiber it is given.  For a queued fiber these are
  fibers of the old tree, which still carry their effect tags: the ones of the render
  before, or \<open>DELETION\<close>.

  After \<open>two_lists\<close> was rendered and committed, the render of \<open>two_lists_changed\<close> makes
  the host nodes \<open>7\<close> and \<open>8\<close> and queues the old \<open>a\<close> (host node \<open>3\<close> in the \<open>ul\<close>, host
  node \<open>2\<close>) and the old \<open>c\<close> (host node \<open>6\<close> in the \<open>ol\<close>, host node \<open>5\<close>).  The commit
  removes host node \<open>3\<close>, then goes on to the sibling of the old \<open>a\<close>, the old \<open>b\<close>, whose
  tag is still \<open>PLACEMENT\<close>, and appends its host node \<open>4\<close> again; only then it removes
  host node \<open>6\<close>: a placement effect between two deletions.

  After \<open>div_a_b\<close> was rendered and committed, the render of \<open>div_b\<close> queues the old \<open>a\<close>
  and the old \<open>b\<close>.  The commit of the old \<open>a\<close> goes on to its sibling, the old \<open>b\<close>, and
  removes its host node; the commit of the old \<open>b\<close> then asks the host to remove that
  node a second time, which the host refuses: \<open>commitRoot\<close> throws, and the work tree is
  not promoted.
\<close>

theorem commitRoot_replays_stale_effects:
  "workLoop 30 no_yield (drender two_lists 0 dinit) = Inr rendered_lists
   \<and> log_of (workLoop 30 no_yield (drender two_lists_changed 0 rendered_lists))
       = Inr (dlog rendered_lists
              @ [CreateElement 7 (JStr ''i''), CreateElement 8 (JStr ''u''),
                 RemoveChild 2 3, AppendChild 2 4, RemoveChild 5 6,
                 AppendChild 2 7, AppendChild 5 8])
   \<and> workLoop 20 no_yield (drender div_a_b 0 dinit) = Inr rendered_a_b
   \<and> log_of (workLoop 20 no_yield (drender div_b 0 rendered_a_b)) = Inl HostError"
  by (simp add: rendered_lists_def rendered_a_b_def two_lists_def two_lists_changed_def
      div_a_b_def div_b_def didact_defs log_of_def eval_nat_numeral)

text \<open>
  Claim C1.  The claim describes the reconciliation of every old child chain with
  every new description array.  The loop links a new fiber with
  \<open>prevSibling.sibling = newFiber\<close> on every turn after the first, also when the
  description array has ended and \<open>prevSibling\<close> is \<open>null\<close>.  When the old chain is two
  or more longer than the array the assignment throws a \<open>TypeError\<close>: reconciling the
  chain of two old children with the empty array throws, and so does the work loop
  that renders \<open>div_empty\<close> after \<open>div_a_b\<close> was rendered and committed.
\<close>

theorem reconcileChildren_throws_when_two_children_removed:
  "log_of (reconcileChildren 5 0 [] two_old_children) = Inl TypeError
   \<and> workLoop 20 no_yield (drender div_a_b 0 dinit) = Inr rendered_a_b
   \<and> log_of (workLoop 20 no_yield (drender div_empty 0 rendered_a_b)) = Inl TypeError"
  by (simp add: two_old_children_def rendered_a_b_def div_a_b_def div_empty_def didact_defs
      log_of_def eval_nat_numeral)

text \<open>
  The commit of this engine, when it returns, promotes the work-in-progress root and
  clears the reference; \<open>updateDom\<close> with the same old and new properties, none of them
  \<open>NaN\<close>, makes no host call.
\<close>

lemma dcommitRoot_promotes:
  "dcommitRoot fuel st = Inr st' \<Longrightarrow> currentRoot st' = wipRoot st \<and> wipRoot st' = None"
proof -
  assume a: "dcommitRoot fuel st = Inr st'"
  then obtain ds st1 w st2 where "deletions st = Some ds" "commit_deletions fuel ds st = Inr st1"
    "wipRoot st1 = Some w" "commitWork fuel (f_child (dheap st1 w)) st1 = Inr st2"
    "st' = st2\<lparr>currentRoot := wipRoot st2, wipRoot := None\<rparr>"
    by (auto simp: dcommitRoot_def split: option.splits sum.splits)
  then show ?thesis
    using commit_deletions_frame[of fuel ds st st1] commitWork_frame[of fuel _ st1 st2] by auto
qed

lemma strict_eq_refl: "v \<noteq> JNaN \<Longrightarrow> strict_eq v v"
  by (cases v) auto

lemma obj_read_not_NaN: "JNaN \<notin> snd ` set ps \<Longrightarrow> obj_read ps k \<noteq> JNaN"
proof -
  assume a: "JNaN \<notin> snd ` set ps"
  show ?thesis
  proof (cases "map_of ps k")
    case None
    have "inherited k \<noteq> JNaN"
      by (auto simp: inherited_def object_prototype_def split: option.splits if_splits)
    then show ?thesis using None by (simp add: obj_read_def)
  next
    case (Some v)
    then have "(k, v) \<in> set ps" by (rule map_of_SomeD)
    then have "v \<noteq> JNaN" using a by force
    then show ?thesis using Some by (simp add: obj_read_def)
  qed
qed

lemma updateDom_same_props: "JNaN \<notin> snd ` set ps \<Longrightarrow> updateDom el ps ps = []"
  by (auto simp: updateDom_def isNew_def isGone_def prop_lookup_def has_property_def
      strict_eq_refl obj_read_not_NaN filter_empty_conv)

section \<open>The order of the steps of the render loop\<close>

lemma linked_cong:
  assumes "linked fs ns"
    and "\<And>n. n \<in> set ns \<Longrightarrow> return (fs' n) = return (fs n)"
    and "\<And>n. n \<in> set (butlast ns) \<Longrightarrow> child (fs' n) = child (fs n)"
  shows "linked fs' ns"
  using assms
proof (induction fs ns rule: linked.induct)
  case (1 fs p c r)
  then show ?case by auto
qed simp_all

lemma linked_snoc:
  "linked fs (xs @ [p]) \<Longrightarrow> child (fs p) = Some c \<Longrightarrow> return (fs c) = Some p
     \<Longrightarrow> linked fs (xs @ [p, c])"
proof (induction xs)
  case Nil
  then show ?case by simp
next
  case (Cons a xs)
  then show ?case by (cases xs) auto
qed

lemma linked_snocD:
  "linked fs (xs @ [p, c]) \<Longrightarrow> return (fs c) = Some p \<and> linked fs (xs @ [p])"
proof (induction xs)
  case Nil
  then show ?case by simp
next
  case (Cons a xs)
  then show ?case by (cases xs) auto
qed

lemma createFiberFromElement_frame:
  assumes "createFiberFromElement en el st = Inr (c, st')"
  shows "c = next_fiber st \<and> next_fiber st' = Suc c \<and> trace st' = trace st
         \<and> workInProgress st' = workInProgress st
         \<and> links (fibers st' c) = (None, None, None)
         \<and> (\<forall>a. a \<noteq> c \<longrightarrow> fibers st' a = fibers st a)"
  using assms
  by (auto simp: createFiberFromElement_def createFiber_def upd_fiber_def Let_def links_def
      FiberNode_def split: sum.splits)

lemma resolve_children_frame:
  assumes "resolve_children en fuel cur w st = Inr (Some (nc, st'))"
  shows "next_fiber st' = next_fiber st \<and> trace st' = trace st
         \<and> workInProgress st' = workInProgress st
         \<and> (\<forall>a. links (fibers st' a) = links (fibers st a))"
proof (cases "tag (fibers st w)")
  case None
  then show ?thesis using assms by (simp add: resolve_children_def Let_def)
next
  case (Some t)
  show ?thesis
  proof (cases t)
    case ClassComponent
    show ?thesis
    proof (cases cur)
      case None
      then show ?thesis using assms Some ClassComponent
        by (auto simp: resolve_children_def Let_def upd_fiber_def links_def split: jsval.splits)
    next
      case (Some c)
      then show ?thesis using assms \<open>tag (fibers st w) = Some t\<close> ClassComponent
        by (auto simp: resolve_children_def Let_def upd_fiber_def links_def
            split: sum.splits option.splits state_node.splits prod.splits)
    qed
  qed (use assms Some in \<open>auto simp: resolve_children_def Let_def links_def
         split: sum.splits jsval.splits\<close>)
qed

lemma beginWork_frame:
  assumes "beginWork en fuel cur w st = Inr (nxt, st')" and "w < next_fiber st"
  shows "trace st' = trace st
     \<and> (\<forall>a. a \<noteq> w \<and> a < next_fiber st \<longrightarrow> links (fibers st' a) = links (fibers st a))
     \<and> return (fibers st' w) = return (fibers st w)
     \<and> sibling (fibers st' w) = sibling (fibers st w)
     \<and> (case nxt of
           None \<Rightarrow> next_fiber st' = next_fiber st
                    \<and> (child (fibers st' w) = None \<or> child (fibers st' w) = child (fibers st w))
         | Some c \<Rightarrow> c = next_fiber st \<and> next_fiber st' = Suc c
                    \<and> child (fibers st' w) = Some c
                    \<and> links (fibers st' c) = (Some w, None, None))"
proof (cases "resolve_children en fuel cur w st")
  case (Inl e)
  then show ?thesis using assms by (simp add: beginWork_def)
next
  case (Inr r)
  show ?thesis
  proof (cases r)
    case None
    then show ?thesis using assms Inr by (auto simp: beginWork_def)
  next
    case (Some p)
    obtain nc st1 where p: "p = (nc, st1)" by (cases p)
    note rc = Inr[unfolded Some p]
    note f1 = resolve_children_frame[OF rc]
    show ?thesis
    proof (cases "truthy nc")
      case False
      then have "nxt = None" "st' = upd_fiber w (\<lambda>f. f\<lparr>child := None\<rparr>) st1"
        using assms rc by (auto simp: beginWork_def)
      then show ?thesis using f1 by (auto simp: upd_fiber_def links_def)
    next
      case True
      from assms rc True obtain c st2 where
        cf: "createFiberFromElement en nc st1 = Inr (c, st2)"
        and e: "st' = upd_fiber w (\<lambda>f. f\<lparr>child := Some c\<rparr>)
                        (upd_fiber c (\<lambda>f. f\<lparr>return := Some w\<rparr>) st2)"
        and n: "nxt = child (fibers st' w)"
        by (auto simp: beginWork_def Let_def split: sum.splits)
      note f2 = createFiberFromElement_frame[OF cf]
      have cw: "c \<noteq> w" using f2 f1 assms(2) by auto
      have nx: "nxt = Some c" using n e by (simp add: upd_fiber_def)
      show ?thesis using f1 f2 cw assms(2) unfolding nx e
        by (auto simp: upd_fiber_def links_def)
    qed
  qed
qed

lemma completeWork_frame:
  assumes "completeWork fuel w st = Inr st'"
  shows "next_fiber st' = next_fiber st \<and> trace st' = trace st
         \<and> (\<forall>a. links (fibers st' a) = links (fibers st a))"
proof (cases "tag (fibers st w)")
  case None
  then show ?thesis using assms by (simp add: completeWork_def Let_def)
next
  case (Some t)
  then show ?thesis using assms
    by (cases t) (auto simp: completeWork_def Let_def upd_fiber_def links_def split: sum.splits)
qed

lemma unwind_path:
  assumes "unwind k w st = Inr st'"
    and "distinct (pre @ [w])" and "linked (fibers st) (pre @ [w])"
    and "list_all (\<lambda>n. sibling (fibers st n) = None) (pre @ [w])"
    and "return (fibers st (hd (pre @ [w]))) = None"
  shows "trace st' = trace st @ map Complete (rev (pre @ [w]))
         \<and> workInProgress st' = None \<and> next_fiber st' = next_fiber st
         \<and> (\<forall>a. links (fibers st' a) = links (fibers st a))"
  using assms
proof (induction k arbitrary: w pre st)
  case 0
  then show ?case by simp
next
  case (Suc k)
  from Suc.prems(1) obtain st1 where
    cw: "completeWork k w (st\<lparr>trace := trace st @ [Complete w]\<rparr>) = Inr st1"
    by (auto split: sum.splits)
  from completeWork_frame[OF cw] have
    f: "next_fiber st1 = next_fiber st" "trace st1 = trace st @ [Complete w]"
       "\<And>a. links (fibers st1 a) = links (fibers st a)"
    by auto
  have l: "\<And>a. return (fibers st1 a) = return (fibers st a)"
          "\<And>a. sibling (fibers st1 a) = sibling (fibers st a)"
    using f(3) by (auto simp: links_def)
  have sw: "sibling (fibers st1 w) = None" using Suc.prems(4) l by simp
  show ?case
  proof (cases pre rule: rev_cases)
    case Nil
    then have "return (fibers st1 w) = None" using Suc.prems(5) l by simp
    then have "st' = st1\<lparr>workInProgress := None\<rparr>" using Suc.prems(1) cw sw by simp
    then show ?thesis using f Nil by simp
  next
    case (snoc pre' p)
    have rw: "return (fibers st w) = Some p" and lp: "linked (fibers st) (pre' @ [p])"
      using linked_snocD[of "fibers st" pre' p w] Suc.prems(3) snoc by auto
    then have r1: "return (fibers st1 w) = Some p" using l by simp
    define st1' where "st1' = st1\<lparr>workInProgress := Some p\<rparr>"
    have u: "unwind k p st1' = Inr st'" using Suc.prems(1) cw sw r1 by (simp add: st1'_def)
    have fs1: "\<And>a. links (fibers st1' a) = links (fibers st a)" using f(3) by (simp add: st1'_def)
    have a1: "distinct (pre' @ [p])" using Suc.prems(2) snoc by simp
    have a2: "linked (fibers st1') (pre' @ [p])"
      by (rule linked_cong[OF lp]) (use fs1 in \<open>auto simp: links_def\<close>)
    have a3: "list_all (\<lambda>n. sibling (fibers st1' n) = None) (pre' @ [p])"
      using Suc.prems(4) snoc fs1 by (auto simp: links_def list_all_iff)
    have hd_eq: "hd (pre' @ [p]) = hd (pre @ [w])" using snoc by (cases pre') auto
    have a4: "return (fibers st1' (hd (pre' @ [p]))) = None"
      using Suc.prems(5) fs1[of "hd (pre @ [w])"] unfolding hd_eq by (simp add: links_def)
    from Suc.IH[OF u a1 a2 a3 a4] have
      "trace st' = trace st1' @ map Complete (rev (pre' @ [p]))"
      "workInProgress st' = None" "next_fiber st' = next_fiber st1'"
      "\<And>a. links (fibers st' a) = links (fibers st1' a)"
      by auto
    then show ?thesis using f fs1 snoc by (simp add: st1'_def)
  qed
qed

lemma renderRootSync_spine:
  assumes "renderRootSync en fuel st = Inr st'" and "spine st path"
  shows "\<exists>ms. trace st' = trace st @ map Begin (last path # ms) @ map Complete (rev (path @ ms))
            \<and> distinct (path @ ms) \<and> linked (fibers st') (path @ ms)
            \<and> list_all (\<lambda>n. sibling (fibers st' n) = None) (path @ ms)
            \<and> child (fibers st' (last (path @ ms))) = None
            \<and> workInProgress st' = None"
  using assms
proof (induction fuel arbitrary: st path)
  case 0
  then show ?case by simp
next
  case (Suc n)
  define w where "w = last path"
  obtain pre where path: "path = pre @ [w]"
    using Suc.prems(2) by (auto simp: spine_def w_def intro: that[of "butlast path"])
  have sp: "distinct path" "list_all (\<lambda>n. n < next_fiber st \<and> sibling (fibers st n) = None) path"
      "return (fibers st (hd path)) = None" "linked (fibers st) path"
      "child (fibers st w) = None" "workInProgress st = Some w"
    using Suc.prems(2) by (auto simp: spine_def w_def)
  have wlt: "w < next_fiber st" using sp(2) path by simp
  define st0 where "st0 = st\<lparr>trace := trace st @ [Begin w]\<rparr>"
  from Suc.prems(1) sp(6) obtain nxt st1 where
    bw: "beginWork en n (alternate (fibers st w)) w st0 = Inr (nxt, st1)"
    by (auto simp: st0_def split: sum.splits)
  have wlt0: "w < next_fiber st0" using wlt by (simp add: st0_def)
  note bf = beginWork_frame[OF bw wlt0]
  define st2 where "st2 = upd_fiber w (\<lambda>f. f\<lparr>memoizedProps := pendingProps f\<rparr>) st1"
  have l2: "\<And>a. links (fibers st2 a) = links (fibers st1 a)"
    by (simp add: st2_def upd_fiber_def links_def)
  have t2: "trace st2 = trace st @ [Begin w]" using bf by (simp add: st2_def upd_fiber_def st0_def)
  have n2: "next_fiber st2 = next_fiber st1" by (simp add: st2_def upd_fiber_def)
  have old: "\<And>a. a \<in> set path \<Longrightarrow> return (fibers st2 a) = return (fibers st a)
                    \<and> sibling (fibers st2 a) = sibling (fibers st a)"
  proof -
    fix a assume "a \<in> set path"
    then have "a < next_fiber st0" using sp(2) by (auto simp: list_all_iff st0_def)
    then show "return (fibers st2 a) = return (fibers st a)
                    \<and> sibling (fibers st2 a) = sibling (fibers st a)"
      using bf l2[of a] by (cases "a = w") (auto simp: links_def st0_def)
  qed
  have oldc: "\<And>a. a \<in> set (butlast path) \<Longrightarrow> child (fibers st2 a) = child (fibers st a)"
  proof -
    fix a assume a: "a \<in> set (butlast path)"
    then have "a \<noteq> w" using sp(1) path by auto
    moreover have "a < next_fiber st0" using a sp(2) path by (auto simp: list_all_iff st0_def)
    ultimately show "child (fibers st2 a) = child (fibers st a)"
      using bf l2[of a] by (auto simp: links_def st0_def)
  qed
  have lk2: "linked (fibers st2) path"
    by (rule linked_cong[OF sp(4)]) (use old oldc in auto)
  have hd2: "return (fibers st2 (hd path)) = None"
    using old[of "hd path"] sp(3) path by (cases pre) auto
  have sib2: "list_all (\<lambda>n. sibling (fibers st2 n) = None) path"
    using sp(2) old by (auto simp: list_all_iff)
  show ?case
  proof (cases nxt)
    case None
    have c2: "child (fibers st2 w) = None"
      using bf None sp(5) l2[of w] by (auto simp: links_def st0_def)
    from Suc.prems(1) sp(6) bw None obtain st3 where
      u: "unwind n w st2 = Inr st3" and r: "renderRootSync en n st3 = Inr st'"
      by (auto simp: st0_def st2_def Let_def split: sum.splits)
    from unwind_path[OF u sp(1)[unfolded path] lk2[unfolded path] sib2[unfolded path]
        hd2[unfolded path]]
    have u3: "trace st3 = trace st2 @ map Complete (rev path)" "workInProgress st3 = None"
      "\<And>a. links (fibers st3 a) = links (fibers st2 a)"
      unfolding path by auto
    have "st' = st3" using r u3(2) by (cases n) auto
    moreover have "linked (fibers st3) path"
      by (rule linked_cong[OF lk2]) (use u3(3) in \<open>auto simp: links_def\<close>)
    moreover have "list_all (\<lambda>n. sibling (fibers st3 n) = None) path"
      using sib2 u3(3) by (auto simp: list_all_iff links_def)
    moreover have "child (fibers st3 (last path)) = None"
      using c2 u3(3)[of w] by (simp add: links_def w_def)
    ultimately have "trace st' = trace st @ map Begin (last path # []) @ map Complete (rev (path @ []))
            \<and> distinct (path @ []) \<and> linked (fibers st') (path @ [])
            \<and> list_all (\<lambda>n. sibling (fibers st' n) = None) (path @ [])
            \<and> child (fibers st' (last (path @ []))) = None
            \<and> workInProgress st' = None"
      using u3 t2 sp(1) by (simp add: w_def)
    then show ?thesis by blast
  next
    case (Some c)
    have cf: "c = next_fiber st" "next_fiber st1 = Suc c" "child (fibers st1 w) = Some c"
      "links (fibers st1 c) = (Some w, None, None)"
      using bf Some by (auto simp: st0_def)
    define st2' where "st2' = st2\<lparr>workInProgress := Some c\<rparr>"
    have r: "renderRootSync en n st2' = Inr st'"
      using Suc.prems(1) sp(6) bw Some by (simp add: st0_def st2_def st2'_def Let_def)
    have cnot: "c \<notin> set path" using sp(2) cf(1) by (auto simp: list_all_iff)
    have lc: "return (fibers st2 c) = Some w" "child (fibers st2 c) = None"
      "sibling (fibers st2 c) = None" "child (fibers st2 w) = Some c"
      using cf l2[of c] l2[of w] by (auto simp: links_def)
    have "linked (fibers st2) (pre @ [w, c])"
      by (rule linked_snoc[OF lk2[unfolded path] lc(4) lc(1)])
    then have lk: "linked (fibers st2') (path @ [c])" by (simp add: path st2'_def)
    have hd3: "return (fibers st2 (hd (path @ [c]))) = None"
      using hd2 path by (cases pre) auto
    have spn: "spine st2' (path @ [c])"
      unfolding spine_def
      using sp(1) cnot lk sib2 lc(1,2,3) hd3 sp(2) cf(1,2) n2
      by (auto simp: st2'_def list_all_iff)
    from Suc.IH[OF r spn] obtain ms where
      ms: "trace st' = trace st2' @ map Begin (last (path @ [c]) # ms)
               @ map Complete (rev ((path @ [c]) @ ms))"
        "distinct ((path @ [c]) @ ms)" "linked (fibers st') ((path @ [c]) @ ms)"
        "list_all (\<lambda>n. sibling (fibers st' n) = None) ((path @ [c]) @ ms)"
        "child (fibers st' (last ((path @ [c]) @ ms))) = None"
        "workInProgress st' = None"
      by blast
    have "trace st' = trace st @ map Begin (last path # (c # ms)) @ map Complete (rev (path @ (c # ms)))"
      using ms(1) t2 by (simp add: st2'_def w_def)
    then show ?thesis using ms(2-6) by (intro exI[of _ "c # ms"]) simp
  qed
qed

text \<open>
  Claim C2.  Let the render loop start at a root work node \<open>w\<close> (no parent, no sibling,
  no child yet), as \<open>createWorkInProgress\<close> makes it, and let it return.  Then the work
  tree it has built is the chain \<open>w # ns\<close>: each node is the child of the one before
  it, no node has a sibling (\<open>beginWork\<close> makes one child at most), and the last has no
  child.  The steps of the loop are the begin steps of the nodes from the root down,
  each parent before its child, followed by the complete steps from the last node up:
  a node is completed only after every node below it has been completed, and a parent
  only after its child with the whole subtree of the child.
\<close>

theorem renderRootSync_step_order:
  assumes "renderRootSync en fuel st = Inr st'"
    and "workInProgress st = Some w" and "w < next_fiber st"
    and "return (fibers st w) = None" and "sibling (fibers st w) = None"
    and "child (fibers st w) = None"
  shows "\<exists>ns. trace st' = trace st @ map Begin (w # ns) @ map Complete (rev (w # ns))
            \<and> distinct (w # ns) \<and> linked (fibers st') (w # ns)
            \<and> list_all (\<lambda>n. sibling (fibers st' n) = None) (w # ns)
            \<and> child (fibers st' (last (w # ns))) = None
            \<and> workInProgress st' = None"
proof -
  have "spine st [w]" using assms(2-6) by (simp add: spine_def)
  from renderRootSync_spine[OF assms(1) this] show ?thesis by simp
qed

text \<open>
  The theorem at the run of the module on \<open><AppClassComponent />\<close>: the tree is the chain
  of the root, the class component, the \<open>div\<close> and the \<open>h2\<close> (addresses \<open>1\<close> to \<open>4\<close>).
\<close>

theorem renderRootSync_step_order_witness:
  "\<exists>st'. renderRootSync app_env 9 (init_state (JObj 27 [(''children'', app_element)])) = Inr st'
     \<and> trace st' = [Begin 1, Begin 2, Begin 3, Begin 4,
                     Complete 4, Complete 3, Complete 2, Complete 1]
     \<and> (\<exists>ns. trace st' = trace (init_state (JObj 27 [(''children'', app_element)]))
                   @ map Begin (1 # ns) @ map Complete (rev (1 # ns))
            \<and> distinct (1 # ns) \<and> linked (fibers st') (1 # ns)
            \<and> list_all (\<lambda>n. sibling (fibers st' n) = None) (1 # ns)
            \<and> child (fibers st' (last (1 # ns))) = None
            \<and> workInProgress st' = None)"
proof -
  define st where "st = init_state (JObj 27 [(''children'', app_element)])"
  have i: "workInProgress st = Some 1 \<and> 1 < next_fiber st \<and> return (fibers st 1) = None
      \<and> sibling (fibers st 1) = None \<and> child (fibers st 1) = None"
    by (simp add: st_def engine_defs)
  have "\<exists>st'. renderRootSync app_env 9 st = Inr st'
     \<and> trace st' = [Begin 1, Begin 2, Begin 3, Begin 4,
                     Complete 4, Complete 3, Complete 2, Complete 1]"
    by (simp add: st_def engine_defs app_env_def app_element_def div_element_def h2_element_def
        eval_nat_numeral)
  then obtain st' where r: "renderRootSync app_env 9 st = Inr st'"
    and t: "trace st' = [Begin 1, Begin 2, Begin 3, Begin 4,
                     Complete 4, Complete 3, Complete 2, Complete 1]" by blast
  from renderRootSync_step_order[OF r] i
  have "\<exists>ns. trace st' = trace st @ map Begin (1 # ns) @ map Complete (rev (1 # ns))
            \<and> distinct (1 # ns) \<and> linked (fibers st') (1 # ns)
            \<and> list_all (\<lambda>n. sibling (fibers st' n) = None) (1 # ns)
            \<and> child (fibers st' (last (1 # ns))) = None
            \<and> workInProgress st' = None" by blast
  with r t show ?thesis unfolding st_def by blast
qed

section \<open>Reconciliation of children where the loop completes\<close>

lemma new_fibers_cong:
  "(\<And>old. old \<in> set olds \<Longrightarrow> core (h' old) = core (h old))
     \<Longrightarrow> new_fibers h' w a olds els = new_fibers h w a olds els"
proof (induction els arbitrary: a olds)
  case Nil
  then show ?case by simp
next
  case (Cons e es)
  have t: "\<And>old. old \<in> set (tl olds) \<Longrightarrow> core (h' old) = core (h old)"
    using Cons.prems by (cases olds) auto
  have "fiber_for h' w (case olds of [] \<Rightarrow> None | old # os \<Rightarrow> Some old) e
           (if es = [] then None else Some (Suc a))
        = fiber_for h w (case olds of [] \<Rightarrow> None | old # os \<Rightarrow> Some old) e
           (if es = [] then None else Some (Suc a))"
    using Cons.prems by (cases olds) (auto simp: fiber_for_def core_def)
  then show ?case using Cons.IH[OF t] by simp
qed

lemma unmatched_cong:
  "(\<And>old. old \<in> set olds \<Longrightarrow> core (h' old) = core (h old))
     \<Longrightarrow> unmatched h' olds els = unmatched h olds els"
proof (induction h olds els rule: unmatched.induct)
  case (1 h els)
  then show ?case by simp
next
  case (2 h old os)
  then show ?case by simp
next
  case (3 h old os e es)
  have "f_type (h' old) = f_type (h old)" using "3.prems"[of old] by (simp add: core_def)
  then show ?case using 3 by simp
qed

lemma unmatched_subset: "set (unmatched h olds els) \<subseteq> set olds"
  by (induction h olds els rule: unmatched.induct) auto

lemma length_new_fibers: "length (new_fibers h w a olds els) = length els"
  by (induction els arbitrary: a olds) auto

lemma sib_chain_cong:
  "sib_chain h x os \<Longrightarrow> (\<And>old. old \<in> set os \<Longrightarrow> f_sibling (h' old) = f_sibling (h old))
     \<Longrightarrow> sib_chain h' x os"
  by (induction os arbitrary: x) auto

text \<open>One turn of the loop on a description, with or without an old fiber.\<close>

lemma reconcile_turn_element:
  assumes "sib_chain (dheap st) oldFiber olds" and "\<forall>old\<in>set olds. old < dnext st"
    and "w < dnext st"
    and "index = 0 \<or> (\<exists>ps. prevSibling = Some ps \<and> ps < dnext st)"
    and "deletions st = Some ds"
  shows "\<exists>st3. reconcile_loop (Suc n) w (e # es) index oldFiber prevSibling st
               = reconcile_loop n w es (Suc index)
                   (case olds of [] \<Rightarrow> None | old # os \<Rightarrow> f_sibling (dheap st old))
                   (Some (dnext st)) st3
      \<and> dnext st3 = Suc (dnext st)
      \<and> dheap st3 (dnext st) = fiber_for (dheap st) w oldFiber e None
      \<and> deletions st3 = Some (ds @ unmatched (dheap st) (take 1 olds) [e])
      \<and> (\<forall>a<dnext st. core (dheap st3 a) = core (dheap st a)
            \<and> f_child (dheap st3 a)
                = (if a = w \<and> index = 0 then Some (dnext st) else f_child (dheap st a))
            \<and> f_sibling (dheap st3 a)
                = (if prevSibling = Some a \<and> index \<noteq> 0 then Some (dnext st)
                   else f_sibling (dheap st a))
            \<and> f_effectTag (dheap st3 a)
                = (if a \<in> set (unmatched (dheap st) (take 1 olds) [e]) then Some DELETION
                   else f_effectTag (dheap st a)))
      \<and> dlog st3 = dlog st \<and> wipRoot st3 = wipRoot st \<and> currentRoot st3 = currentRoot st
      \<and> nextUnitOfWork st3 = nextUnitOfWork st \<and> dnext_dom st3 = dnext_dom st"
proof (cases olds)
  case Nil
  then have o: "oldFiber = None" using assms(1) by simp
  show ?thesis
  proof (cases "index = 0")
    case True
    then show ?thesis using assms(3,5) o Nil
      apply (simp add: sameType_def make_newFiber_def mark_deletion_def link_newFiber_def
          alloc_dfiber_def upd_dfiber_def Let_def)
      apply ((intro conjI impI)?; (rule exI, rule conjI, rule refl, simp add: fiber_for_def core_def))
      done
  next
    case False
    then obtain ps where "prevSibling = Some ps" "ps < dnext st" using assms(4) by auto
    then show ?thesis using False assms(5) o Nil
      apply (simp add: sameType_def make_newFiber_def mark_deletion_def link_newFiber_def
          alloc_dfiber_def upd_dfiber_def Let_def)
      apply ((intro conjI impI)?; (rule exI, rule conjI, rule refl, simp add: fiber_for_def core_def))
      done
  qed
next
  case (Cons old os)
  then have o: "oldFiber = Some old" and lt: "old < dnext st" using assms(1,2) by auto
  show ?thesis
  proof (cases "index = 0")
    case True
    then show ?thesis using assms(3,5) o lt Cons
      apply (simp add: sameType_def make_newFiber_def mark_deletion_def link_newFiber_def
          alloc_dfiber_def upd_dfiber_def Let_def)
      apply ((intro conjI impI)?; (rule exI, rule conjI, rule refl, simp add: fiber_for_def core_def))
      done
  next
    case False
    then obtain ps where "prevSibling = Some ps" "ps < dnext st" using assms(4) by auto
    then show ?thesis using False assms(5) o lt Cons
      apply (simp add: sameType_def make_newFiber_def mark_deletion_def link_newFiber_def
          alloc_dfiber_def upd_dfiber_def Let_def)
      apply ((intro conjI impI)?; (rule exI, rule conjI, rule refl, simp add: fiber_for_def core_def))
      done
  qed
qed

text \<open>One turn of the loop past the end of the descriptions, on a last old fiber.\<close>

lemma reconcile_turn_old_only:
  assumes "oldFiber = Some old" and "old < dnext st" and "w < dnext st"
    and "index = 0 \<or> (\<exists>ps. prevSibling = Some ps \<and> ps < dnext st)"
    and "deletions st = Some ds"
  shows "\<exists>st3. reconcile_loop (Suc n) w [] index oldFiber prevSibling st
               = reconcile_loop n w [] (Suc index) (f_sibling (dheap st old)) None st3
      \<and> dnext st3 = dnext st
      \<and> deletions st3 = Some (ds @ [old])
      \<and> (\<forall>a<dnext st. core (dheap st3 a) = core (dheap st a)
            \<and> f_child (dheap st3 a)
                = (if a = w \<and> index = 0 then None else f_child (dheap st a))
            \<and> f_sibling (dheap st3 a)
                = (if prevSibling = Some a \<and> index \<noteq> 0 then None
                   else f_sibling (dheap st a))
            \<and> f_effectTag (dheap st3 a)
                = (if a = old then Some DELETION else f_effectTag (dheap st a)))
      \<and> dlog st3 = dlog st \<and> wipRoot st3 = wipRoot st \<and> currentRoot st3 = currentRoot st
      \<and> nextUnitOfWork st3 = nextUnitOfWork st \<and> dnext_dom st3 = dnext_dom st"
proof (cases "index = 0")
  case True
  then show ?thesis using assms(1,5)
    apply (simp add: sameType_def make_newFiber_def mark_deletion_def link_newFiber_def
        upd_dfiber_def Let_def)
    apply ((intro conjI impI)?; (rule exI, rule conjI, rule refl, simp add: core_def))
    done
next
  case False
  then obtain ps where "prevSibling = Some ps" using assms(4) by auto
  then show ?thesis using False assms(1,5)
    apply (simp add: sameType_def make_newFiber_def mark_deletion_def link_newFiber_def
        upd_dfiber_def Let_def)
    apply ((intro conjI impI)?; (rule exI, rule conjI, rule refl, simp add: core_def))
    done
qed

text \<open>A fiber is determined by its core and the three fields the reconciliation writes.\<close>

lemma dfiber_eqI:
  fixes f g :: dfiber
  shows "core f = core g \<Longrightarrow> f_child f = f_child g \<Longrightarrow> f_sibling f = f_sibling g
     \<Longrightarrow> f_effectTag f = f_effectTag g \<Longrightarrow> f = g"
  by (cases f, cases g) (simp add: core_def)

lemma fiber_for_fields:
  "core (fiber_for h w x e s) = core (fiber_for h w x e None)"
  "f_child (fiber_for h w x e s) = None"
  "f_sibling (fiber_for h w x e s) = s"
  "f_effectTag (fiber_for h w x e s) = f_effectTag (fiber_for h w x e None)"
  by (simp_all add: fiber_for_def core_def)

lemma sib_chain_head:
  "sib_chain h x olds \<Longrightarrow> x = (case olds of [] \<Rightarrow> None | old # os \<Rightarrow> Some old)"
  by (cases olds) auto

lemma unmatched_step:
  "unmatched h olds (e # es) = unmatched h (take 1 olds) [e] @ unmatched h (tl olds) es"
  by (cases olds) auto

text \<open>
  The loop on an old chain at most one longer than the descriptions: it returns, the new
  fibers are the ones \<open>new_fibers\<close> describes at consecutive addresses, the old fibers
  of \<open>unmatched\<close> are tagged and pushed in order, the first new fiber is linked below
  the parent (or after \<open>prevSibling\<close>), and nothing else is written.
\<close>

lemma reconcile_loop_correct:
  assumes "sib_chain (dheap st) oldFiber olds" and "\<forall>old\<in>set olds. old < dnext st"
    and "w < dnext st"
    and "index = 0 \<or> (els = [] \<and> olds = [])
           \<or> (\<exists>ps. prevSibling = Some ps \<and> ps < dnext st \<and> ps \<notin> set olds)"
    and "deletions st = Some ds"
    and "length olds \<le> Suc (length els)" and "length els < fuel" and "length olds < fuel"
  shows "\<exists>st'. reconcile_loop fuel w els index oldFiber prevSibling st = Inr st'
      \<and> dnext st' = dnext st + length els
      \<and> (\<forall>j<length els. dheap st' (dnext st + j)
                            = new_fibers (dheap st) w (dnext st) olds els ! j)
      \<and> deletions st' = Some (ds @ unmatched (dheap st) olds els)
      \<and> (\<forall>a<dnext st. core (dheap st' a) = core (dheap st a)
            \<and> f_child (dheap st' a)
                = (if a = w \<and> index = 0 \<and> (els \<noteq> [] \<or> olds \<noteq> [])
                   then (if els = [] then None else Some (dnext st))
                   else f_child (dheap st a))
            \<and> f_sibling (dheap st' a)
                = (if prevSibling = Some a \<and> index \<noteq> 0 \<and> (els \<noteq> [] \<or> olds \<noteq> [])
                   then (if els = [] then None else Some (dnext st))
                   else f_sibling (dheap st a))
            \<and> f_effectTag (dheap st' a)
                = (if a \<in> set (unmatched (dheap st) olds els) then Some DELETION
                   else f_effectTag (dheap st a)))
      \<and> dlog st' = dlog st \<and> wipRoot st' = wipRoot st \<and> currentRoot st' = currentRoot st
      \<and> nextUnitOfWork st' = nextUnitOfWork st \<and> dnext_dom st' = dnext_dom st"
  using assms
proof (induction fuel arbitrary: els index oldFiber prevSibling st olds ds)
  case 0
  then show ?case by simp
next
  case (Suc n)
  note chain = Suc.prems(1) and olds_lt = Suc.prems(2) and w_lt = Suc.prems(3)
    and prev = Suc.prems(4) and dels = Suc.prems(5) and len = Suc.prems(6)
  show ?case
  proof (cases els)
    case Nil
    show ?thesis
    proof (cases olds)
      case olds_Nil: Nil
      then have "oldFiber = None" using chain by simp
      then show ?thesis using Nil olds_Nil dels by simp
    next
      case (Cons old os)
      then have os: "os = []" using len Nil by simp
      have o: "oldFiber = Some old" and sibn: "f_sibling (dheap st old) = None"
        using chain Cons os by auto
      have lt: "old < dnext st" using olds_lt Cons by simp
      have pv: "index = 0 \<or> (\<exists>ps. prevSibling = Some ps \<and> ps < dnext st)"
        using prev Cons by auto
      obtain m where n: "n = Suc m" using Suc.prems(8) Cons by (cases n) auto
      from reconcile_turn_old_only[OF o lt w_lt pv dels, of n]
      obtain st3 where
        t1: "reconcile_loop (Suc n) w [] index oldFiber prevSibling st
               = reconcile_loop n w [] (Suc index) (f_sibling (dheap st old)) None st3"
        and t2: "dnext st3 = dnext st"
        and t4: "deletions st3 = Some (ds @ [old])"
        and t5: "\<forall>a<dnext st. core (dheap st3 a) = core (dheap st a)
            \<and> f_child (dheap st3 a)
                = (if a = w \<and> index = 0 then None else f_child (dheap st a))
            \<and> f_sibling (dheap st3 a)
                = (if prevSibling = Some a \<and> index \<noteq> 0 then None
                   else f_sibling (dheap st a))
            \<and> f_effectTag (dheap st3 a)
                = (if a = old then Some DELETION else f_effectTag (dheap st a))"
        and t6: "dlog st3 = dlog st \<and> wipRoot st3 = wipRoot st \<and> currentRoot st3 = currentRoot st
            \<and> nextUnitOfWork st3 = nextUnitOfWork st \<and> dnext_dom st3 = dnext_dom st"
        by blast
      have r: "reconcile_loop (Suc n) w [] index oldFiber prevSibling st = Inr st3"
        using t1 sibn n by simp
      have u: "unmatched (dheap st) olds els = [old]" using Cons os Nil by simp
      show ?thesis
        apply (rule exI[of _ st3])
        using r t2 t4 t5 t6 u Nil Cons apply simp
        done
    qed
  next
    case (Cons e es)
    define h where "h = dheap st"
    define a0 where "a0 = dnext st"
    define oF where "oF = (case olds of [] \<Rightarrow> None | old # os \<Rightarrow> f_sibling (dheap st old))"
    have pv: "index = 0 \<or> (\<exists>ps. prevSibling = Some ps \<and> ps < dnext st)"
      using prev Cons by auto
    from reconcile_turn_element[OF chain olds_lt w_lt pv dels, of n e es]
    obtain st3 where
      t1: "reconcile_loop (Suc n) w (e # es) index oldFiber prevSibling st
             = reconcile_loop n w es (Suc index) oF (Some a0) st3"
      and t2: "dnext st3 = Suc a0"
      and t3: "dheap st3 a0 = fiber_for h w oldFiber e None"
      and t4: "deletions st3 = Some (ds @ unmatched h (take 1 olds) [e])"
      and t5: "\<forall>a<a0. core (dheap st3 a) = core (h a)
            \<and> f_child (dheap st3 a)
                = (if a = w \<and> index = 0 then Some a0 else f_child (h a))
            \<and> f_sibling (dheap st3 a)
                = (if prevSibling = Some a \<and> index \<noteq> 0 then Some a0
                   else f_sibling (h a))
            \<and> f_effectTag (dheap st3 a)
                = (if a \<in> set (unmatched h (take 1 olds) [e]) then Some DELETION
                   else f_effectTag (h a))"
      and t6: "dlog st3 = dlog st \<and> wipRoot st3 = wipRoot st \<and> currentRoot st3 = currentRoot st
            \<and> nextUnitOfWork st3 = nextUnitOfWork st \<and> dnext_dom st3 = dnext_dom st"
      unfolding h_def a0_def oF_def by blast
    have olds_lt': "\<And>x. x \<in> set olds \<Longrightarrow> x < a0" using olds_lt by (simp add: a0_def)
    have tl_sub: "\<And>x. x \<in> set (tl olds) \<Longrightarrow> x \<in> set olds" by (cases olds) auto
    have sib_same: "\<And>x. x \<in> set olds \<Longrightarrow> f_sibling (dheap st3 x) = f_sibling (h x)"
    proof -
      fix x assume x: "x \<in> set olds"
      then have "\<not> (prevSibling = Some x \<and> index \<noteq> 0)" using prev Cons by auto
      then show "f_sibling (dheap st3 x) = f_sibling (h x)" using t5 olds_lt'[OF x] by auto
    qed
    have core_same: "\<And>x. x \<in> set olds \<Longrightarrow> core (dheap st3 x) = core (h x)"
      using t5 olds_lt' by simp
    have p1: "sib_chain (dheap st3) oF (tl olds)"
    proof (cases olds)
      case Nil
      then show ?thesis by (simp add: oF_def)
    next
      case c: (Cons old os)
      then have "sib_chain h oF os" using chain by (simp add: oF_def h_def)
      then have "sib_chain (dheap st3) oF os"
        by (rule sib_chain_cong) (simp add: sib_same c)
      then show ?thesis using c by simp
    qed
    have p2: "\<forall>old\<in>set (tl olds). old < dnext st3"
      using olds_lt' tl_sub t2 by (auto simp: less_Suc_eq)
    have p3: "w < dnext st3" using w_lt t2 by (simp add: a0_def)
    have a0_notin: "a0 \<notin> set olds" using olds_lt' by auto
    then have a0_notin_tl: "a0 \<notin> set (tl olds)" using tl_sub by auto
    have p4: "Suc index = 0 \<or> (es = [] \<and> tl olds = [])
           \<or> (\<exists>ps. Some a0 = Some ps \<and> ps < dnext st3 \<and> ps \<notin> set (tl olds))"
      using a0_notin_tl t2 by simp
    have p6: "length (tl olds) \<le> Suc (length es)" using len Cons by simp
    have p7: "length es < n" using Suc.prems(7) Cons by simp
    have p8: "length (tl olds) < n" using Suc.prems(8) p7 by (cases olds) auto
    from Suc.IH[OF p1 p2 p3 p4 t4 p6 p7 p8]
    obtain st' where
      r1: "reconcile_loop n w es (Suc index) oF (Some a0) st3 = Inr st'"
      and r2: "dnext st' = dnext st3 + length es"
      and r3: "\<forall>j<length es. dheap st' (dnext st3 + j)
                  = new_fibers (dheap st3) w (dnext st3) (tl olds) es ! j"
      and r4: "deletions st' = Some ((ds @ unmatched h (take 1 olds) [e])
                                      @ unmatched (dheap st3) (tl olds) es)"
      and r5: "\<forall>a<dnext st3. core (dheap st' a) = core (dheap st3 a)
            \<and> f_child (dheap st' a)
                = (if a = w \<and> Suc index = 0 \<and> (es \<noteq> [] \<or> tl olds \<noteq> [])
                   then (if es = [] then None else Some (dnext st3))
                   else f_child (dheap st3 a))
            \<and> f_sibling (dheap st' a)
                = (if Some a0 = Some a \<and> Suc index \<noteq> 0 \<and> (es \<noteq> [] \<or> tl olds \<noteq> [])
                   then (if es = [] then None else Some (dnext st3))
                   else f_sibling (dheap st3 a))
            \<and> f_effectTag (dheap st' a)
                = (if a \<in> set (unmatched (dheap st3) (tl olds) es) then Some DELETION
                   else f_effectTag (dheap st3 a))"
      and r6: "dlog st' = dlog st3 \<and> wipRoot st' = wipRoot st3 \<and> currentRoot st' = currentRoot st3
            \<and> nextUnitOfWork st' = nextUnitOfWork st3 \<and> dnext_dom st' = dnext_dom st3"
      by blast
    have um: "unmatched (dheap st3) (tl olds) es = unmatched h (tl olds) es"
      by (rule unmatched_cong) (simp add: core_same tl_sub)
    have nf: "new_fibers (dheap st3) w (Suc a0) (tl olds) es = new_fibers h w (Suc a0) (tl olds) es"
      by (rule new_fibers_cong) (simp add: core_same tl_sub)
    have um_sub: "\<And>x. x \<in> set (unmatched h (tl olds) es) \<Longrightarrow> x \<in> set (tl olds)"
      using unmatched_subset by blast
    have g1: "reconcile_loop (Suc n) w els index oldFiber prevSibling st = Inr st'"
      using t1 r1 Cons by simp
    have g2: "dnext st' = dnext st + length els" using r2 t2 Cons by (simp add: a0_def)
    have first: "dheap st' a0
        = fiber_for h w (case olds of [] \<Rightarrow> None | old # os \<Rightarrow> Some old) e
            (if es = [] then None else Some (Suc a0))"
    proof (rule dfiber_eqI)
      have lt: "a0 < dnext st3" using t2 by simp
      have of_eq: "oldFiber = (case olds of [] \<Rightarrow> None | old # os \<Rightarrow> Some old)"
        using chain by (rule sib_chain_head)
      have w_ne: "a0 \<noteq> w" using w_lt by (simp add: a0_def)
      show "core (dheap st' a0) = core (fiber_for h w (case olds of [] \<Rightarrow> None | old # os \<Rightarrow> Some old) e
            (if es = [] then None else Some (Suc a0)))"
        using r5 lt t3 of_eq fiber_for_fields(1) by metis
      show "f_child (dheap st' a0) = f_child (fiber_for h w (case olds of [] \<Rightarrow> None | old # os \<Rightarrow> Some old) e
            (if es = [] then None else Some (Suc a0)))"
        using r5 lt t3 by (simp add: fiber_for_fields)
      show "f_sibling (dheap st' a0) = f_sibling (fiber_for h w (case olds of [] \<Rightarrow> None | old # os \<Rightarrow> Some old) e
            (if es = [] then None else Some (Suc a0)))"
        using r5 lt t3 t2 by (simp add: fiber_for_fields)
      have "a0 \<notin> set (unmatched (dheap st3) (tl olds) es)"
        using um um_sub a0_notin_tl by auto
      then show "f_effectTag (dheap st' a0) = f_effectTag (fiber_for h w (case olds of [] \<Rightarrow> None | old # os \<Rightarrow> Some old) e
            (if es = [] then None else Some (Suc a0)))"
        using r5 lt t3 of_eq fiber_for_fields(4) by metis
    qed
    have g3: "\<forall>j<length els. dheap st' (dnext st + j)
                = new_fibers (dheap st) w (dnext st) olds els ! j"
    proof (intro allI impI)
      fix j assume j: "j < length els"
      show "dheap st' (dnext st + j) = new_fibers (dheap st) w (dnext st) olds els ! j"
      proof (cases j)
        case 0
        then show ?thesis using first Cons by (simp add: h_def a0_def)
      next
        case (Suc k)
        then have k: "k < length es" using j Cons by simp
        have "dheap st' (Suc a0 + k) = new_fibers h w (Suc a0) (tl olds) es ! k"
          using r3 k t2 nf by simp
        then show ?thesis using Suc Cons by (simp add: h_def a0_def)
      qed
    qed
    have g4: "deletions st' = Some (ds @ unmatched (dheap st) olds els)"
      using r4 um Cons unmatched_step[of h olds e es] by (simp add: h_def)
    have g5: "\<forall>a<dnext st. core (dheap st' a) = core (dheap st a)
            \<and> f_child (dheap st' a)
                = (if a = w \<and> index = 0 \<and> (els \<noteq> [] \<or> olds \<noteq> [])
                   then (if els = [] then None else Some (dnext st))
                   else f_child (dheap st a))
            \<and> f_sibling (dheap st' a)
                = (if prevSibling = Some a \<and> index \<noteq> 0 \<and> (els \<noteq> [] \<or> olds \<noteq> [])
                   then (if els = [] then None else Some (dnext st))
                   else f_sibling (dheap st a))
            \<and> f_effectTag (dheap st' a)
                = (if a \<in> set (unmatched (dheap st) olds els) then Some DELETION
                   else f_effectTag (dheap st a))"
    proof (intro allI impI)
      fix a assume "a < dnext st"
      then have a: "a < a0" and a3: "a < dnext st3" and ne: "a0 \<noteq> a"
        using t2 by (auto simp: a0_def)
      have x1: "core (dheap st' a) = core (dheap st a)"
        using r5 a3 t5 a by (simp add: h_def)
      have x2: "f_child (dheap st' a) = (if a = w \<and> index = 0 then Some a0 else f_child (h a))"
        using r5 a3 t5 a by simp
      have x3: "f_sibling (dheap st' a)
                 = (if prevSibling = Some a \<and> index \<noteq> 0 then Some a0 else f_sibling (h a))"
        using r5 a3 t5 a ne by simp
      have x4: "f_effectTag (dheap st' a)
                 = (if a \<in> set (unmatched h (take 1 olds) [e] @ unmatched h (tl olds) es)
                    then Some DELETION else f_effectTag (h a))"
        using r5 a3 t5 a um by simp
      show "core (dheap st' a) = core (dheap st a)
            \<and> f_child (dheap st' a)
                = (if a = w \<and> index = 0 \<and> (els \<noteq> [] \<or> olds \<noteq> [])
                   then (if els = [] then None else Some (dnext st))
                   else f_child (dheap st a))
            \<and> f_sibling (dheap st' a)
                = (if prevSibling = Some a \<and> index \<noteq> 0 \<and> (els \<noteq> [] \<or> olds \<noteq> [])
                   then (if els = [] then None else Some (dnext st))
                   else f_sibling (dheap st a))
            \<and> f_effectTag (dheap st' a)
                = (if a \<in> set (unmatched (dheap st) olds els) then Some DELETION
                   else f_effectTag (dheap st a))"
        using x1 x2 x3 x4 Cons unmatched_step[of h olds e es] by (simp add: h_def a0_def)
    qed
    have g6: "dlog st' = dlog st \<and> wipRoot st' = wipRoot st \<and> currentRoot st' = currentRoot st
      \<and> nextUnitOfWork st' = nextUnitOfWork st \<and> dnext_dom st' = dnext_dom st"
      using r6 t6 by simp
    show ?thesis using g1 g2 g3 g4 g5 g6 by blast
  qed
qed

text \<open>
  \<open>reconcileChildren\<close> on a fiber whose old child chain is at most one longer than the
  descriptions: it returns; the fibers for the descriptions are the new ones at
  consecutive addresses, in the order of the descriptions, the first of them the child
  of the fiber; the old fibers of \<open>unmatched\<close> are tagged \<open>DELETION\<close> and pushed.
\<close>

lemma reconcileChildren_correct:
  assumes "sib_chain (dheap st)
             (case f_alternate (dheap st w) of None \<Rightarrow> None | Some alt \<Rightarrow> f_child (dheap st alt))
             olds"
    and "\<forall>old\<in>set olds. old < dnext st" and "w < dnext st"
    and "deletions st = Some ds"
    and "length olds \<le> Suc (length els)" and "Suc (length els) < fuel"
  shows "\<exists>st'. reconcileChildren fuel w els st = Inr st'
      \<and> dnext st' = dnext st + length els
      \<and> (\<forall>j<length els. dheap st' (dnext st + j)
                            = new_fibers (dheap st) w (dnext st) olds els ! j)
      \<and> deletions st' = Some (ds @ unmatched (dheap st) olds els)
      \<and> (\<forall>old\<in>set (unmatched (dheap st) olds els).
            f_effectTag (dheap st' old) = Some DELETION)
      \<and> f_child (dheap st' w)
          = (if els = [] then (if olds = [] then f_child (dheap st w) else None)
             else Some (dnext st))"
proof -
  have l1: "length els < fuel" and l2: "length olds < fuel" using assms(5,6) by auto
  have i0: "(0::nat) = 0 \<or> (els = [] \<and> olds = [])
           \<or> (\<exists>ps. None = Some ps \<and> ps < dnext st \<and> ps \<notin> set olds)" by simp
  from reconcile_loop_correct[OF assms(1,2,3) i0 assms(4,5) l1 l2]
  obtain st' where
    r1: "reconcile_loop fuel w els 0
           (case f_alternate (dheap st w) of None \<Rightarrow> None | Some alt \<Rightarrow> f_child (dheap st alt))
           None st = Inr st'"
    and r2: "dnext st' = dnext st + length els"
    and r3: "\<forall>j<length els. dheap st' (dnext st + j)
                            = new_fibers (dheap st) w (dnext st) olds els ! j"
    and r4: "deletions st' = Some (ds @ unmatched (dheap st) olds els)"
    and r5: "\<forall>a<dnext st. core (dheap st' a) = core (dheap st a)
            \<and> f_child (dheap st' a)
                = (if a = w \<and> (0::nat) = 0 \<and> (els \<noteq> [] \<or> olds \<noteq> [])
                   then (if els = [] then None else Some (dnext st))
                   else f_child (dheap st a))
            \<and> f_sibling (dheap st' a)
                = (if None = Some a \<and> (0::nat) \<noteq> 0 \<and> (els \<noteq> [] \<or> olds \<noteq> [])
                   then (if els = [] then None else Some (dnext st))
                   else f_sibling (dheap st a))
            \<and> f_effectTag (dheap st' a)
                = (if a \<in> set (unmatched (dheap st) olds els) then Some DELETION
                   else f_effectTag (dheap st a))"
    by blast
  have g1: "reconcileChildren fuel w els st = Inr st'"
    using r1 by (simp add: reconcileChildren_def)
  have g5: "\<forall>old\<in>set (unmatched (dheap st) olds els).
            f_effectTag (dheap st' old) = Some DELETION"
  proof
    fix old assume o: "old \<in> set (unmatched (dheap st) olds els)"
    then have "old \<in> set olds" using unmatched_subset by blast
    then have "old < dnext st" using assms(2) by simp
    then show "f_effectTag (dheap st' old) = Some DELETION" using r5 o by simp
  qed
  have g6: "f_child (dheap st' w)
          = (if els = [] then (if olds = [] then f_child (dheap st w) else None)
             else Some (dnext st))"
    using r5 assms(3) by auto
  show ?thesis using g1 r2 r3 r4 g5 g6 by blast
qed

section \<open>Attaching the children on the chains the render loop builds\<close>











end
